(* ===== verification/Prelude.thy ===== *)
theory Prelude
  imports Main "HOL-Library.Word"
begin

text \<open>
  Shared vocabulary of the development: the machine types of the C sources
  (\<open>unsigned\<close> flags as \<open>32 word\<close>, \<open>unsigned long\<close> offsets and sizes as
  \<open>64 word\<close>, bytes as \<open>8 word\<close>), the collections of simplification rules the
  component theories fill, and the generic list lemmas on positional writes that
  the stream model and the data copy engine share.
\<close>

type_synonym byte = "8 word"
type_synonym u32 = "32 word"
type_synonym u64 = "64 word"
type_synonym ptr = nat
type_synonym inode = nat

named_theorems table_simps "equations of the open file table operations"
named_theorems flag_simps "bit tests of the mode flags"
named_theorems stream_simps "equations of the byte stream model"

section \<open>Positional writes\<close>

text \<open>
  \<open>put_at p bs d\<close> is the content of a file \<open>d\<close> after writing \<open>bs\<close> at byte offset
  \<open>p\<close>: a write past the end first extends the file with zero bytes (a POSIX hole),
  and bytes after the written range are kept.
\<close>

definition put_at :: "nat \<Rightarrow> 'a::zero list \<Rightarrow> 'a list \<Rightarrow> 'a list" where
  "put_at p bs d = take p d @ replicate (p - length d) 0 @ bs @ drop (p + length bs) d"

lemma length_put_at [simp]:
  "length (put_at p bs d) = max (length d) (p + length bs)"
  by (simp add: put_at_def)

lemma put_at_Nil [simp]: "p \<le> length d \<Longrightarrow> put_at p [] d = d"
  by (simp add: put_at_def)

lemma take_put_at_prefix:
  "take p (put_at p bs d) = take p d @ replicate (p - length d) 0"
  by (simp add: put_at_def)

lemma drop_put_at_slice [simp]:
  "take (length bs) (drop p (put_at p bs d)) = bs"
  by (simp add: put_at_def)

lemma put_at_append:
  "put_at (p + length a) b (put_at p a d) = put_at p (a @ b) d"
  by (auto simp add: put_at_def max_def min_def ac_simps)

lemma put_at_read_before:
  assumes "q + n \<le> p" "q + n \<le> length d"
  shows "take n (drop q (put_at p bs d)) = take n (drop q d)"
  using assms by (simp add: put_at_def take_drop min_def)

lemma put_at_read_after:
  assumes "p + length bs \<le> q"
  shows "drop q (put_at p bs d) = drop q d"
  using assms by (cases "length d \<le> p") (simp_all add: put_at_def)

section \<open>Counting through list updates\<close>

lemma length_filter_update_int:
  "k < length xs \<Longrightarrow>
   int (length (filter P (xs[k := v]))) =
     int (length (filter P xs)) - of_bool (P (xs ! k)) + of_bool (P v)"
proof (induction xs arbitrary: k)
  case Nil
  then show ?case by simp
next
  case (Cons x xs)
  then show ?case by (cases k) auto
qed

lemma take_update_inside: "k < n \<Longrightarrow> take n (xs[k := v]) = (take n xs)[k := v]"
  by (simp add: take_update_swap)

lemma take_update_outside: "n \<le> k \<Longrightarrow> take n (xs[k := v]) = take n xs"
  by simp

lemma length_filter_take_Suc:
  "n < length xs \<Longrightarrow>
   length (filter P (take (Suc n) xs)) = length (filter P (take n xs)) + (if P (xs ! n) then 1 else 0)"
  by (simp add: take_Suc_conv_app_nth)

section \<open>Lists\<close>

lemma dropWhile_idem: "dropWhile P (dropWhile P xs) = dropWhile P xs"
  by (induction xs) auto

lemma case_drop_nth: "(case drop n xs of [] \<Rightarrow> d | y # _ \<Rightarrow> f y) = (if n < length xs then f (xs ! n) else d)"
  by (simp add: Cons_nth_drop_Suc [symmetric])

section \<open>Words\<close>

lemma unat_sum_list:
  fixes ls :: "'a::len word list"
  shows "sum_list (map unat ls) < 2 ^ LENGTH('a) \<Longrightarrow> unat (sum_list ls) = sum_list (map unat ls)"
proof (induction ls)
  case (Cons l ls)
  then have "sum_list (map unat ls) < 2 ^ LENGTH('a)" by simp
  with Cons.IH have s: "unat (sum_list ls) = sum_list (map unat ls)" .
  have "unat l + unat (sum_list ls) < 2 ^ LENGTH('a)" using Cons.prems s by simp
  then show ?case using s by (simp add: unat_add_lem [THEN iffD1])
qed simp


text \<open>Unsigned 64-bit addition: the bound of \<open>unat\<close> and the value of a sum that wraps.\<close>

lemma unat_u64_lt: "unat (x :: u64) < 2 ^ 64"
proof -
  have "unat x < 2 ^ LENGTH(64)" by (rule unsigned_less)
  then show ?thesis by simp
qed

lemma unat_add_wrap:
  fixes x y :: u64
  assumes "2 ^ 64 \<le> unat x + unat y"
  shows "unat (x + y) = unat x + unat y - 2 ^ 64"
proof -
  have "unat (x + y) = (unat x + unat y) mod 2 ^ 64" by (simp add: unat_word_ariths(1))
  moreover have "unat x + unat y < 2 * 2 ^ 64" using unat_u64_lt [of x] unat_u64_lt [of y] by simp
  ultimately show ?thesis using assms by (simp add: mod_if)
qed

end
