(* ===== verification/Xdr_Os.thy ===== *)
theory Xdr_Os
  imports Prelude
begin

text \<open>
  The operating system and the XDR byte streams, as far as the session manager of
  \<open>mfhdf/src/file.c\<close> uses them. None of this code is under \<open>src/\<close>: it is modelled
  from the interface the specification gives to the codec gateway (seek, get and
  put bytes) and from POSIX (\<open>open\<close>, \<open>close\<close>, \<open>rename\<close>, \<open>remove\<close>,
  \<open>access\<close>, \<open>getrlimit\<close>). Files are inodes reached through a directory, so that
  a stream stays attached to its file across a \<open>rename\<close>, as a file descriptor does.
  The fields \<open>oom\<close> and \<open>rename_fault\<close> are the environment's choice of failure for
  \<open>malloc\<close> and \<open>rename\<close>; \<open>in_use\<close> is the set of paths the HDF layer has open
  (\<open>HPisfile_in_use\<close>).
\<close>

datatype xdr_op = XDR_ENCODE | XDR_DECODE | XDR_FREE

record xdr =
  x_op :: xdr_op
  x_ino :: inode
  x_pos :: nat

datatype errno = EEXIST | ENOENT | EMFILE | EXDEV

record os_state =
  dir :: "string \<rightharpoonup> inode"
  files :: "inode \<rightharpoonup> byte list"
  next_ino :: inode
  open_fds :: nat
  rlim_cur :: u64
  pid :: nat
  oom :: bool
  rename_fault :: bool
  in_use :: "string set"

section \<open>Streams\<close>

definition h4_xdr_setpos :: "os_state \<Rightarrow> xdr \<Rightarrow> nat \<Rightarrow> xdr option" where
  "h4_xdr_setpos os x p =
     (if files os (x_ino x) = None then None else Some (x\<lparr>x_pos := p\<rparr>))"

definition h4_xdr_getbytes :: "os_state \<Rightarrow> xdr \<Rightarrow> nat \<Rightarrow> (byte list \<times> xdr) option" where
  "h4_xdr_getbytes os x n =
     (case files os (x_ino x) of
        None \<Rightarrow> None
      | Some d \<Rightarrow>
          if x_pos x + n \<le> length d
          then Some (take n (drop (x_pos x) d), x\<lparr>x_pos := x_pos x + n\<rparr>)
          else None)"

definition h4_xdr_putbytes :: "os_state \<Rightarrow> xdr \<Rightarrow> byte list \<Rightarrow> (os_state \<times> xdr) option" where
  "h4_xdr_putbytes os x bs =
     (case files os (x_ino x) of
        None \<Rightarrow> None
      | Some d \<Rightarrow>
          Some (os\<lparr>files := (files os)(x_ino x \<mapsto> put_at (x_pos x) bs d)\<rparr>,
                x\<lparr>x_pos := x_pos x + length bs\<rparr>))"

section \<open>Files\<close>

text \<open>The four \<open>open(2)\<close> modes that \<open>NCxdrfile_create\<close> uses.\<close>

datatype open_mode = O_RDWR_CREAT_EXCL | O_RDWR_CREAT_TRUNC | O_RDWR | O_RDONLY

definition new_file :: "os_state \<Rightarrow> string \<Rightarrow> os_state \<times> inode" where
  "new_file os p =
     (os\<lparr>dir := (dir os)(p \<mapsto> next_ino os), files := (files os)(next_ino os \<mapsto> []),
         next_ino := Suc (next_ino os), open_fds := Suc (open_fds os)\<rparr>, next_ino os)"

text \<open>
  Descriptors 0, 1 and 2 are the standard streams, so an \<open>open\<close> fails with
  \<open>EMFILE\<close> once \<open>3 + open_fds\<close> descriptors reach the soft limit.
\<close>

definition posix_open :: "os_state \<Rightarrow> string \<Rightarrow> open_mode \<Rightarrow> errno + (os_state \<times> inode)" where
  "posix_open os p m =
     (if unat (rlim_cur os) \<le> 3 + open_fds os then Inl EMFILE
      else if p = [] then Inl ENOENT
      else case (m, dir os p) of
        (O_RDWR_CREAT_EXCL, Some _) \<Rightarrow> Inl EEXIST
      | (O_RDWR_CREAT_EXCL, None) \<Rightarrow> Inr (new_file os p)
      | (O_RDWR_CREAT_TRUNC, Some i) \<Rightarrow>
          Inr (os\<lparr>files := (files os)(i \<mapsto> []), open_fds := Suc (open_fds os)\<rparr>, i)
      | (O_RDWR_CREAT_TRUNC, None) \<Rightarrow> Inr (new_file os p)
      | (_, Some i) \<Rightarrow> Inr (os\<lparr>open_fds := Suc (open_fds os)\<rparr>, i)
      | (_, None) \<Rightarrow> Inl ENOENT)"

definition posix_close :: "os_state \<Rightarrow> os_state" where
  "posix_close os = os\<lparr>open_fds := open_fds os - 1\<rparr>"

definition posix_access :: "os_state \<Rightarrow> string \<Rightarrow> bool" where
  "posix_access os p \<longleftrightarrow> p \<noteq> [] \<and> dir os p \<noteq> None"

definition posix_remove :: "os_state \<Rightarrow> string \<Rightarrow> errno + os_state" where
  "posix_remove os p =
     (if dir os p = None then Inl ENOENT else Inr (os\<lparr>dir := (dir os)(p := None)\<rparr>))"

text \<open>
  \<open>rename(2)\<close> moves the directory entry; the inode, and every stream open on it,
  is untouched. \<open>rename_fault\<close> stands for the failures the environment decides
  (another file system, permissions).
\<close>

definition posix_rename :: "os_state \<Rightarrow> string \<Rightarrow> string \<Rightarrow> errno + os_state" where
  "posix_rename os old new =
     (if rename_fault os then Inl EXDEV
      else case dir os old of
        None \<Rightarrow> Inl ENOENT
      | Some i \<Rightarrow> if old = new then Inr os
                  else Inr (os\<lparr>dir := ((dir os)(new \<mapsto> i))(old := None)\<rparr>))"

text \<open>
  A well-formed file system: every directory entry names an existing inode, and every
  existing inode is below the next fresh one.
\<close>

definition os_ok :: "os_state \<Rightarrow> bool" where
  "os_ok os \<longleftrightarrow> (\<forall>p i. dir os p = Some i \<longrightarrow> i \<in> dom (files os)) \<and>
                 (\<forall>i \<in> dom (files os). i < next_ino os)"

text \<open>
  \<open>writes_only os os'\<close>: \<open>os'\<close> differs from \<open>os\<close> only in the contents of
  existing files (what a stream write does).
\<close>

definition writes_only :: "os_state \<Rightarrow> os_state \<Rightarrow> bool" where
  "writes_only os os' \<longleftrightarrow> os' = os\<lparr>files := files os'\<rparr> \<and> dom (files os') = dom (files os)"

text \<open>\<open>frame_at i os os'\<close>: a stream write confined to the file with inode \<open>i\<close>.\<close>

definition frame_at :: "inode \<Rightarrow> os_state \<Rightarrow> os_state \<Rightarrow> bool" where
  "frame_at i os os' \<longleftrightarrow> writes_only os os' \<and> (\<forall>j. j \<noteq> i \<longrightarrow> files os' j = files os j)"

section \<open>Lemmas\<close>

lemma h4_xdr_getbytes_Some [stream_simps]:
  "files os (x_ino x) = Some d \<Longrightarrow> x_pos x + n \<le> length d \<Longrightarrow>
   h4_xdr_getbytes os x n = Some (take n (drop (x_pos x) d), x\<lparr>x_pos := x_pos x + n\<rparr>)"
  by (simp add: h4_xdr_getbytes_def)

lemma h4_xdr_putbytes_Some [stream_simps]:
  "files os (x_ino x) = Some d \<Longrightarrow>
   h4_xdr_putbytes os x bs = Some (os\<lparr>files := (files os)(x_ino x \<mapsto> put_at (x_pos x) bs d)\<rparr>,
                                   x\<lparr>x_pos := x_pos x + length bs\<rparr>)"
  by (simp add: h4_xdr_putbytes_def)

lemma h4_xdr_putbytes_files:
  "h4_xdr_putbytes os x bs = Some (os', x') \<Longrightarrow> i \<noteq> x_ino x \<Longrightarrow> files os' i = files os i"
  by (auto simp add: h4_xdr_putbytes_def split: option.splits)

lemma h4_xdr_putbytes_dir:
  "h4_xdr_putbytes os x bs = Some (os', x') \<Longrightarrow> dir os' = dir os \<and> open_fds os' = open_fds os"
  by (auto simp add: h4_xdr_putbytes_def split: option.splits)

lemma os_ok_fds [simp]: "os_ok (os\<lparr>open_fds := n\<rparr>) = os_ok os"
  by (simp add: os_ok_def)

lemma os_ok_dirD: "os_ok os \<Longrightarrow> dir os p = Some i \<Longrightarrow> i \<in> dom (files os)"
  by (simp add: os_ok_def)

lemma os_ok_new_file:
  assumes "os_ok os"
  shows "os_ok (os\<lparr>dir := (dir os)(p \<mapsto> next_ino os), files := (files os)(next_ino os \<mapsto> d),
                    next_ino := Suc (next_ino os)\<rparr>)"
proof -
  have d: "\<And>q i. dir os q = Some i \<Longrightarrow> i \<in> dom (files os)"
    and f: "\<And>i. i \<in> dom (files os) \<Longrightarrow> i < next_ino os" using assms by (auto simp add: os_ok_def)
  show ?thesis unfolding os_ok_def
  proof (intro conjI allI impI ballI)
    fix q i assume "dir (os\<lparr>dir := (dir os)(p \<mapsto> next_ino os), files := (files os)(next_ino os \<mapsto> d),
                    next_ino := Suc (next_ino os)\<rparr>) q = Some i"
    then show "i \<in> dom (files (os\<lparr>dir := (dir os)(p \<mapsto> next_ino os), files := (files os)(next_ino os \<mapsto> d),
                    next_ino := Suc (next_ino os)\<rparr>))"
      using d by (auto split: if_splits)
  next
    fix i assume "i \<in> dom (files (os\<lparr>dir := (dir os)(p \<mapsto> next_ino os), files := (files os)(next_ino os \<mapsto> d),
                    next_ino := Suc (next_ino os)\<rparr>))"
    then show "i < next_ino (os\<lparr>dir := (dir os)(p \<mapsto> next_ino os), files := (files os)(next_ino os \<mapsto> d),
                    next_ino := Suc (next_ino os)\<rparr>)"
      using f by (auto split: if_splits simp add: less_Suc_eq)
  qed
qed

lemma os_ok_write:
  "os_ok os \<Longrightarrow> i \<in> dom (files os) \<Longrightarrow> os_ok (os\<lparr>files := (files os)(i \<mapsto> d)\<rparr>)"
  by (auto simp add: os_ok_def)

lemma posix_open_ok:
  assumes "os_ok os" "posix_open os p m = Inr (os', i)"
  shows "os_ok os' \<and> dir os' p = Some i \<and> i \<in> dom (files os') \<and> dom (files os) \<subseteq> dom (files os') \<and>
         open_fds os' = Suc (open_fds os)"
proof (cases "dir os p")
  case None
  then have "os' = (os\<lparr>dir := (dir os)(p \<mapsto> next_ino os), files := (files os)(next_ino os \<mapsto> []),
                    next_ino := Suc (next_ino os)\<rparr>)\<lparr>open_fds := Suc (open_fds os)\<rparr> \<and> i = next_ino os"
    using assms(2) by (cases m) (auto simp add: posix_open_def new_file_def split: if_splits)
  then show ?thesis using os_ok_new_file [OF assms(1), where p = p and d = "[]"] by auto
next
  case (Some j)
  then have j: "j \<in> dom (files os)" using assms(1) by (rule os_ok_dirD [rotated])
  have "(os' = os\<lparr>files := (files os)(j \<mapsto> []), open_fds := Suc (open_fds os)\<rparr> \<or>
         os' = os\<lparr>open_fds := Suc (open_fds os)\<rparr>) \<and> i = j"
    using assms(2) Some by (cases m) (auto simp add: posix_open_def split: if_splits)
  then show ?thesis using os_ok_write [OF assms(1) j, of "[]"] assms(1) j Some by auto
qed

lemma remove_keeps_fds_files:
  "posix_remove os p = Inr os' \<Longrightarrow> os_ok os \<Longrightarrow>
   os_ok os' \<and> open_fds os' = open_fds os \<and> files os' = files os"
  by (fastforce simp add: posix_remove_def os_ok_def split: if_splits)

lemma writes_only_refl [simp]: "writes_only os os"
  by (simp add: writes_only_def)

lemma writes_only_trans:
  "writes_only os1 os2 \<Longrightarrow> writes_only os2 os3 \<Longrightarrow> writes_only os1 os3"
  unfolding writes_only_def by (metis os_state.update_convs(2) os_state.ext_inject os_state.surjective)

lemma writes_only_fields:
  "writes_only os os' \<Longrightarrow>
   dir os' = dir os \<and> open_fds os' = open_fds os \<and> next_ino os' = next_ino os \<and>
   dom (files os') = dom (files os) \<and> rlim_cur os' = rlim_cur os \<and> in_use os' = in_use os \<and>
   pid os' = pid os \<and> oom os' = oom os \<and> rename_fault os' = rename_fault os"
  unfolding writes_only_def by (metis os_state.select_convs os_state.surjective os_state.update_convs(2))

lemma writes_only_os_ok: "writes_only os os' \<Longrightarrow> os_ok os' = os_ok os"
  using writes_only_fields [of os os'] by (simp add: os_ok_def)

lemma h4_xdr_putbytes_writes:
  "h4_xdr_putbytes os x bs = Some (os', x') \<Longrightarrow> writes_only os os' \<and> x_ino x' = x_ino x"
  by (auto simp add: h4_xdr_putbytes_def writes_only_def split: option.splits if_splits)

lemma frame_at_refl [simp]: "frame_at i os os"
  by (simp add: frame_at_def)

lemma frame_at_trans: "frame_at i os1 os2 \<Longrightarrow> frame_at i os2 os3 \<Longrightarrow> frame_at i os1 os3"
  unfolding frame_at_def using writes_only_trans by metis

lemma h4_xdr_putbytes_frame:
  "h4_xdr_putbytes os x bs = Some (os', x') \<Longrightarrow> frame_at (x_ino x) os os' \<and> x_ino x' = x_ino x"
  using h4_xdr_putbytes_writes h4_xdr_putbytes_files unfolding frame_at_def by blast

lemma frame_at_files: "frame_at i os os' \<Longrightarrow> j \<noteq> i \<Longrightarrow> files os' j = files os j"
  by (simp add: frame_at_def)


lemma posix_rename_ok:
  "posix_rename os a b = Inr os' \<Longrightarrow> os_ok os \<Longrightarrow>
   os_ok os' \<and> files os' = files os \<and> open_fds os' = open_fds os"
  unfolding posix_rename_def os_ok_def by (auto split: if_splits option.splits) blast+

lemma posix_rename_dir: "posix_rename os a b = Inr os' \<Longrightarrow> dir os' b = dir os a"
  by (auto simp add: posix_rename_def split: if_splits option.splits)

end
