(* ===== verification/NC_Types.thy ===== *)
theory NC_Types
  imports Xdr_Os
begin

unbundle bit_operations_syntax

text \<open>
  The handle (session) object \<open>NC\<close> of \<open>mfhdf/src/file.c\<close>, its variables
  \<open>NC_var\<close>, the mode flags as the C \<open>unsigned\<close> bit set, the error codes the
  file passes to \<open>NCadvise\<close>, and \<open>NCxdrfile_create\<close>, which opens the stream a
  handle owns. The flag values are those of \<open>netcdf.h\<close> (\<open>NC_CLOBBER\<close> is
  \<open>NC_INDEF | NC_CREAT | NC_RDWR\<close>, \<open>NC_NOCLOBBER\<close> adds \<open>NC_EXCL\<close>); the structs are those of
  \<open>local_nc.h\<close>, restricted to the fields \<open>file.c\<close> reads or writes
  (dimensions and attributes are kept by the codec and never touched here).
\<close>

section \<open>Mode flags\<close>

abbreviation NC_RDWR :: u32 where "NC_RDWR \<equiv> 0x1"
abbreviation NC_CREAT :: u32 where "NC_CREAT \<equiv> 0x2"
abbreviation NC_EXCL :: u32 where "NC_EXCL \<equiv> 0x4"
abbreviation NC_INDEF :: u32 where "NC_INDEF \<equiv> 0x8"
abbreviation NC_NDIRTY :: u32 where "NC_NDIRTY \<equiv> 0x40"
abbreviation NC_HDIRTY :: u32 where "NC_HDIRTY \<equiv> 0x80"
abbreviation NC_NOFILL :: u32 where "NC_NOFILL \<equiv> 0x100"
abbreviation NC_NOWRITE :: u32 where "NC_NOWRITE \<equiv> 0"
abbreviation NC_WRITE :: u32 where "NC_WRITE \<equiv> 0x1"
abbreviation NC_CLOBBER :: u32 where "NC_CLOBBER \<equiv> 0xb"
abbreviation NC_NOCLOBBER :: u32 where "NC_NOCLOBBER \<equiv> 0xf"
abbreviation NC_FILL :: u32 where "NC_FILL \<equiv> 0"

text \<open>\<open>flag_set fl m\<close> is the C test \<open>fl & m\<close> in a condition.\<close>

definition flag_set :: "u32 \<Rightarrow> u32 \<Rightarrow> bool" where
  "flag_set fl m \<longleftrightarrow> fl AND m \<noteq> 0"

lemma flag_set_or [flag_simps]: "flag_set (fl OR a) m \<longleftrightarrow> flag_set fl m \<or> flag_set a m"
  by (simp add: flag_set_def bit.conj_disj_distrib2 or_eq_0_iff)

lemma flag_set_mask_or: "flag_set fl (a OR b) \<longleftrightarrow> flag_set fl a \<or> flag_set fl b"
  by (simp add: flag_set_def bit.conj_disj_distrib or_eq_0_iff)

lemma flag_set_clear [flag_simps]: "flag_set (fl AND NOT a) m \<longleftrightarrow> flag_set fl (m AND NOT a)"
  by (simp add: flag_set_def ac_simps)

lemma flag_set_zero [flag_simps]: "\<not> flag_set fl 0"
  by (simp add: flag_set_def)

lemma flag_set_same [flag_simps]: "m \<noteq> 0 \<Longrightarrow> flag_set m m"
  by (simp add: flag_set_def)

lemma flag_set_consts [flag_simps]:
  "flag_set NC_INDEF NC_INDEF" "\<not> flag_set NC_INDEF NC_CREAT" "\<not> flag_set NC_INDEF NC_RDWR"
  "\<not> flag_set NC_INDEF NC_NOFILL" "\<not> flag_set NC_INDEF NC_HDIRTY" "\<not> flag_set NC_INDEF NC_NDIRTY"
  "flag_set NC_NOFILL NC_NOFILL" "\<not> flag_set NC_NOFILL NC_INDEF" "\<not> flag_set NC_NOFILL NC_RDWR"
  "\<not> flag_set NC_NOFILL NC_HDIRTY" "\<not> flag_set NC_NOFILL NC_NDIRTY" "\<not> flag_set NC_NOFILL NC_CREAT"
  by (simp_all add: flag_set_def)

lemma flag_clear_self [flag_simps]: "\<not> flag_set (fl AND NOT m) m"
  by (simp add: flag_set_def and.assoc)

section \<open>Variables and handles\<close>

datatype file_kind = netCDF_FILE | HDF_FILE | CDF_FILE

abbreviation NC_UNLIMITED :: u64 where "NC_UNLIMITED \<equiv> 0"

record nc_var =
  v_name :: string
  v_shape :: "u64 list"
  v_dsizes :: "u64 list"
  v_len :: u64
  v_begin :: u64

text \<open>
  \<open>IS_RECVAR\<close>: a variable is a record variable when its shape is not \<open>NULL\<close>
  (it has a dimension) and its slowest dimension is the unlimited one.
\<close>

definition IS_RECVAR :: "nc_var \<Rightarrow> bool" where
  "IS_RECVAR v = (case v_shape v of [] \<Rightarrow> False | d # _ \<Rightarrow> d = NC_UNLIMITED)"

record nc =
  path :: string
  flags :: u32
  xdrs :: xdr
  begin_rec :: u64
  recsize :: u64
  redefid :: int
  numrecs :: u64
  vars :: "nc_var list option"
  file_type :: file_kind

text \<open>The error codes \<open>file.c\<close> reports; \<open>NC_SYSERR\<close> stands for \<open>nc_serror\<close>.\<close>

datatype nc_err = NC_EBADID | NC_ENFILE | NC_EINVAL | NC_EPERM | NC_ENOTINDEFINE
  | NC_EINDEFINE | NC_EXDR | NC_SYSERR | NC_NOREPORT | NC_UB

text \<open>
  \<open>NC_NOREPORT\<close> is a \<open>-1\<close> return without a call of \<open>NCadvise\<close>: \<open>ncerr\<close> keeps
  whatever it held before.
  \<open>NC_UB\<close> is not a code of \<open>netcdf.h\<close>: it marks the point where the C code has
  undefined behaviour (it dereferences a \<open>NULL\<close> or freed handle, or writes through
  an identifier outside the table). The model stops there and returns the state reached.
\<close>

text \<open>\<open>FILENAME_MAX\<close> of glibc's \<open>stdio.h\<close>: the size of \<open>NC.path\<close> less one.\<close>

definition FILENAME_MAX :: nat where "FILENAME_MAX = 4096"

section \<open>Opening a handle's stream\<close>

text \<open>
  \<open>NCxdrfile_create\<close> (file.c): the low four bits of the netCDF mode choose the
  \<open>open(2)\<close> mode; a create encodes, an open decodes. It returns the stream, or the
  error that made it fail.
\<close>

definition NCxdrfile_create :: "os_state \<Rightarrow> string \<Rightarrow> u32 \<Rightarrow> (nc_err + errno) + (os_state \<times> xdr)" where
  "NCxdrfile_create os p ncmode =
     (let m = ncmode AND 0x0f;
          fm = (if m = NC_NOCLOBBER then Some O_RDWR_CREAT_EXCL
                else if m = NC_CLOBBER then Some O_RDWR_CREAT_TRUNC
                else if m = NC_WRITE then Some O_RDWR
                else if m = NC_NOWRITE then Some O_RDONLY
                else None)
      in case fm of
           None \<Rightarrow> Inl (Inl NC_EINVAL)
         | Some fmode \<Rightarrow>
             (case posix_open os p fmode of
                Inl e \<Rightarrow> Inl (Inr e)
              | Inr (os', i) \<Rightarrow>
                  Inr (os', \<lparr>x_op = (if flag_set ncmode NC_CREAT then XDR_ENCODE else XDR_DECODE),
                             x_ino = i, x_pos = 0\<rparr>)))"

lemma NCxdrfile_create_Inr:
  "NCxdrfile_create os p m = Inr (os', x) \<Longrightarrow>
   dir os' p = Some (x_ino x) \<and> open_fds os' = Suc (open_fds os) \<and> x_pos x = 0"
  by (auto simp add: NCxdrfile_create_def Let_def posix_open_def new_file_def
           split: if_splits option.splits sum.splits prod.splits open_mode.splits)

lemma NCxdrfile_create_Inr_open:
  "NCxdrfile_create os p m = Inr (os', x) \<Longrightarrow> \<exists>fm. posix_open os p fm = Inr (os', x_ino x) \<and> x_pos x = 0"
  by (auto simp add: NCxdrfile_create_def Let_def split: option.splits sum.splits prod.splits)

lemma NCxdrfile_create_ok:
  assumes "NCxdrfile_create os p m = Inr (os', x)" "os_ok os"
  shows "os_ok os' \<and> dir os' p = Some (x_ino x) \<and> x_ino x \<in> dom (files os') \<and>
         dom (files os) \<subseteq> dom (files os') \<and> open_fds os' = Suc (open_fds os) \<and> x_pos x = 0"
proof -
  obtain fm where "posix_open os p fm = Inr (os', x_ino x)" "x_pos x = 0"
    using NCxdrfile_create_Inr_open [OF assms(1)] by blast
  then show ?thesis using posix_open_ok [OF assms(2)] by blast
qed

lemma flag_set_sub: "flag_set fl m \<Longrightarrow> m AND m' = m \<Longrightarrow> flag_set fl m'"
proof (unfold flag_set_def)
  assume a: "fl AND m \<noteq> 0" and b: "m AND m' = m"
  show "fl AND m' \<noteq> 0"
  proof
    assume "fl AND m' = 0"
    then have "fl AND (m AND m') = 0" by (metis and.left_commute and_zero_eq)
    then show False using a b by simp
  qed
qed

end
