(* ===== verification/Open_Table.thy ===== *)
theory Open_Table
  imports NC_Types
begin

text \<open>
  The open file table of \<open>mfhdf/src/file.c\<close>: the process-wide array \<open>_cdfs\<close>
  of handle pointers, its high-water mark \<open>_ncdf\<close>, the count \<open>_curr_opened\<close>
  of files open and the capacity \<open>max_NC_open\<close>, with the operations that
  allocate, grow, scan, fill and clear it. The table is polymorphic in the type
  \<open>'h\<close> of what a slot holds (a pointer to a handle in \<open>Session\<close>), so that its
  lemmas are the interface the session layer relies on. An array that is \<open>NULL\<close>
  is \<open>None\<close>; \<open>malloc\<close> leaves slots uninitialised, which the model writes as
  \<open>None\<close>: no operation reads a slot at or above \<open>_ncdf\<close>.
\<close>

record 'h cdf_table =
  cdfs :: "'h option list option"
  ncdf :: int
  curr_opened :: int
  max_NC_open :: int

abbreviation H4_MAX_NC_OPEN :: int where "H4_MAX_NC_OPEN \<equiv> 32"

definition H4_MAX_AVAIL_OPENFILES :: int where "H4_MAX_AVAIL_OPENFILES = 20000"

text \<open>
  \<open>MAX_AVAIL_OPENFILES\<close>: the soft descriptor limit \<open>rlim_cur\<close> (an unsigned
  \<open>rlim_t\<close>) less the three standard streams, capped at 20000. The subtraction and
  the comparison are unsigned, as in the macro.
\<close>

definition MAX_AVAIL_OPENFILES :: "u64 \<Rightarrow> int" where
  "MAX_AVAIL_OPENFILES rlim =
     (if rlim - 3 > word_of_int H4_MAX_AVAIL_OPENFILES then H4_MAX_AVAIL_OPENFILES
      else uint (rlim - 3))"

definition init_table :: "'h cdf_table" where
  "init_table = \<lparr>cdfs = None, ncdf = 0, curr_opened = 0, max_NC_open = H4_MAX_NC_OPEN\<rparr>"

definition slots :: "'h cdf_table \<Rightarrow> 'h option list" where
  "slots t = (case cdfs t of None \<Rightarrow> [] | Some l \<Rightarrow> l)"

definition ncreset_cdflist :: "'h cdf_table \<Rightarrow> 'h cdf_table" where
  "ncreset_cdflist t = t\<lparr>cdfs := None\<rparr>"

definition nc_malloc :: "bool \<Rightarrow> int \<Rightarrow> 'h option list option" where
  "nc_malloc fails n = (if fails then None else Some (replicate (nat n) None))"

text \<open>
  \<open>NC_reset_maxopenfiles\<close>: \<open>oom\<close> is whether \<open>malloc\<close> fails and \<open>rlim\<close> the
  descriptor limit \<open>getrlimit\<close> reports. The copy loop moves the \<open>_ncdf\<close> first
  pointers; the model keeps the first \<open>alloc_size\<close> of them (C writes past the
  new array when \<open>alloc_size < _ncdf\<close>, see \<open>reset_overflows\<close>).
\<close>

definition NC_reset_maxopenfiles :: "bool \<Rightarrow> u64 \<Rightarrow> int \<Rightarrow> 'h cdf_table \<Rightarrow> int \<times> 'h cdf_table" where
  "NC_reset_maxopenfiles fails rlim req_max t =
     (let sys_limit = MAX_AVAIL_OPENFILES rlim in
      if req_max < 0 then (-1, t)
      else if req_max = 0 then
        (if cdfs t = None then
           (case nc_malloc fails (max_NC_open t) of
              None \<Rightarrow> (-1, t)
            | Some l \<Rightarrow> (max_NC_open t, t\<lparr>cdfs := Some l\<rparr>))
         else (max_NC_open t, t))
      else if req_max < max_NC_open t \<and> req_max \<le> ncdf t then (max_NC_open t, t)
      else
        (let alloc_size = (if req_max > sys_limit then sys_limit else req_max) in
         case nc_malloc fails alloc_size of
           None \<Rightarrow> (-1, t)
         | Some newlist \<Rightarrow>
             (let newlist' = (case cdfs t of
                                None \<Rightarrow> newlist
                              | Some old \<Rightarrow> take (nat alloc_size)
                                   (take (nat (ncdf t)) old @ drop (nat (ncdf t)) newlist))
              in (alloc_size, t\<lparr>cdfs := Some newlist', max_NC_open := alloc_size\<rparr>))))"

definition reset_overflows :: "u64 \<Rightarrow> int \<Rightarrow> 'h cdf_table \<Rightarrow> bool" where
  "reset_overflows rlim req_max t \<longleftrightarrow>
     0 < req_max \<and> \<not> (req_max < max_NC_open t \<and> req_max \<le> ncdf t) \<and> cdfs t \<noteq> None \<and>
     min req_max (MAX_AVAIL_OPENFILES rlim) < ncdf t"

definition NC_get_maxopenfiles :: "'h cdf_table \<Rightarrow> int" where
  "NC_get_maxopenfiles t = max_NC_open t"

definition NC_get_systemlimit :: "u64 \<Rightarrow> int" where
  "NC_get_systemlimit rlim = MAX_AVAIL_OPENFILES rlim"

definition NC_get_numopencdfs :: "'h cdf_table \<Rightarrow> int" where
  "NC_get_numopencdfs t = curr_opened t"

text \<open>\<open>HNDLE\<close> and \<open>NC_check_id\<close>: the slot of an identifier below the high-water mark.\<close>

definition HNDLE :: "'h cdf_table \<Rightarrow> int \<Rightarrow> 'h option" where
  "HNDLE t i =
     (if 0 \<le> i \<and> i < ncdf t then (case drop (nat i) (slots t) of [] \<Rightarrow> None | x # _ \<Rightarrow> x)
      else None)"

definition NC_check_id :: "'h cdf_table \<Rightarrow> int \<Rightarrow> nc_err + 'h" where
  "NC_check_id t cdfid = (case HNDLE t cdfid of None \<Rightarrow> Inl NC_EBADID | Some h \<Rightarrow> Inr h)"

text \<open>The scan \<open>for (id = 0; id < _ncdf; id++) if (_cdfs[id] == NULL) break;\<close>\<close>

fun free_from :: "'h option list \<Rightarrow> nat" where
  "free_from [] = 0"
| "free_from (None # _) = 0"
| "free_from (Some _ # xs) = Suc (free_from xs)"

definition first_free_id :: "'h cdf_table \<Rightarrow> int" where
  "first_free_id t = int (free_from (take (nat (ncdf t)) (slots t)))"

definition set_slot :: "int \<Rightarrow> 'h option \<Rightarrow> 'h cdf_table \<Rightarrow> 'h cdf_table" where
  "set_slot i v t = t\<lparr>cdfs := map_option (\<lambda>l. l[nat i := v]) (cdfs t)\<rparr>"

text \<open>Installing a new handle (the tail of \<open>NC_open\<close>, and of \<open>ncredef\<close>).\<close>

definition install_slot :: "int \<Rightarrow> 'h \<Rightarrow> 'h cdf_table \<Rightarrow> 'h cdf_table" where
  "install_slot i h t =
     (let t1 = set_slot i (Some h) t;
          t2 = (if i = ncdf t1 then t1\<lparr>ncdf := ncdf t1 + 1\<rparr> else t1)
      in t2\<lparr>curr_opened := curr_opened t2 + 1\<rparr>)"

text \<open>
  Retiring a slot (the tail of \<open>ncclose\<close>, repeated in \<open>ncabort\<close> and
  \<open>NC_endef\<close>): the mark drops by one only when the top slot is cleared, and the
  array is freed when the mark reaches 0.
\<close>

definition retire_slot :: "int \<Rightarrow> 'h cdf_table \<Rightarrow> 'h cdf_table" where
  "retire_slot i t =
     (let t1 = set_slot i None t;
          t2 = (if i = ncdf t1 - 1 then t1\<lparr>ncdf := ncdf t1 - 1\<rparr> else t1);
          t3 = t2\<lparr>curr_opened := curr_opened t2 - 1\<rparr>
      in if ncdf t3 = 0 then ncreset_cdflist t3 else t3)"

text \<open>
  The table steps at the head of \<open>NC_open\<close>: allocate \<open>_cdfs\<close> when it is
  \<open>NULL\<close> (\<open>NC_reset_maxopenfiles(0)\<close>), and, when the first free identifier is
  the high-water mark and the mark has reached the capacity, grow the table once to
  the system limit, failing when the capacity is already there. \<open>None\<close> is the
  \<open>NC_ENFILE\<close> return.
\<close>

definition nc_alloc_table :: "bool \<Rightarrow> u64 \<Rightarrow> 'h cdf_table \<Rightarrow> 'h cdf_table option" where
  "nc_alloc_table fails rlim t =
     (if cdfs t = None
      then (case NC_reset_maxopenfiles fails rlim 0 t of (r, t') \<Rightarrow> if r = -1 then None else Some t')
      else Some t)"

definition nc_grow_table :: "bool \<Rightarrow> u64 \<Rightarrow> int \<Rightarrow> 'h cdf_table \<Rightarrow> 'h cdf_table option" where
  "nc_grow_table fails rlim cdfid t =
     (if cdfid = ncdf t \<and> ncdf t \<ge> max_NC_open t then
        (if max_NC_open t = MAX_AVAIL_OPENFILES rlim then None
         else (case NC_reset_maxopenfiles fails rlim (MAX_AVAIL_OPENFILES rlim) t of
                 (r, t') \<Rightarrow> if r = -1 then None else Some t'))
      else Some t)"

text \<open>Whether \<open>_cdfs[i]\<close> is inside the allocated array (a write outside it is undefined).\<close>

definition slot_in_array :: "'h cdf_table \<Rightarrow> int \<Rightarrow> bool" where
  "slot_in_array t i \<longleftrightarrow> (case cdfs t of None \<Rightarrow> False | Some l \<Rightarrow> 0 \<le> i \<and> nat i < length l)"

section \<open>Invariant\<close>

definition live_count :: "'h cdf_table \<Rightarrow> nat" where
  "live_count t = length (filter (\<lambda>x. x \<noteq> None) (take (nat (ncdf t)) (slots t)))"

definition tbl_inv :: "'h cdf_table \<Rightarrow> bool" where
  "tbl_inv t \<longleftrightarrow>
     0 \<le> ncdf t \<and> ncdf t \<le> max_NC_open t \<and>
     (case cdfs t of None \<Rightarrow> ncdf t = 0 | Some l \<Rightarrow> int (length l) = max_NC_open t) \<and>
     curr_opened t = int (live_count t)"

section \<open>Basic facts\<close>

lemma slots_set_slot [table_simps]: "slots (set_slot i v t) = (slots t)[nat i := v]"
  by (simp add: slots_def set_slot_def split: option.splits)

lemma set_slot_fields [table_simps]:
  "ncdf (set_slot i v t) = ncdf t" "curr_opened (set_slot i v t) = curr_opened t"
  "max_NC_open (set_slot i v t) = max_NC_open t"
  "cdfs (set_slot i v t) = None \<longleftrightarrow> cdfs t = None"
  by (simp_all add: set_slot_def)

lemma tbl_inv_init: "tbl_inv init_table"
  by (simp add: tbl_inv_def init_table_def live_count_def slots_def)

lemma tbl_inv_length:
  "tbl_inv t \<Longrightarrow> cdfs t \<noteq> None \<Longrightarrow> int (length (slots t)) = max_NC_open t"
  by (auto simp add: tbl_inv_def slots_def)

lemma tbl_inv_ncdf_le_length:
  assumes "tbl_inv t"
  shows "nat (ncdf t) \<le> length (slots t)"
proof (cases "cdfs t")
  case None
  with assms show ?thesis by (simp add: tbl_inv_def)
next
  case (Some l)
  with assms show ?thesis by (auto simp add: tbl_inv_def slots_def)
qed

lemma HNDLE_nth:
  assumes "tbl_inv t" "0 \<le> i" "i < ncdf t"
  shows "HNDLE t i = slots t ! nat i"
proof -
  have "nat i < length (slots t)"
    using assms tbl_inv_ncdf_le_length [OF assms(1)] by linarith
  then show ?thesis
    using assms by (simp add: HNDLE_def Cons_nth_drop_Suc [symmetric])
qed

lemma HNDLE_outside [table_simps]: "\<not> (0 \<le> i \<and> i < ncdf t) \<Longrightarrow> HNDLE t i = None"
  by (auto simp add: HNDLE_def)

lemma live_count_le: "live_count t \<le> nat (ncdf t)"
proof -
  have "live_count t \<le> length (take (nat (ncdf t)) (slots t))"
    unfolding live_count_def by (rule length_filter_le)
  then show ?thesis by simp
qed

subsection \<open>The free-slot scan\<close>

lemma free_from_le: "free_from xs \<le> length xs"
  by (induction xs rule: free_from.induct) auto

lemma free_from_before: "k < free_from xs \<Longrightarrow> xs ! k \<noteq> None"
proof (induction xs arbitrary: k rule: free_from.induct)
  case (3 h xs)
  then show ?case by (cases k) auto
qed auto

lemma free_from_at: "free_from xs < length xs \<Longrightarrow> xs ! free_from xs = None"
  by (induction xs rule: free_from.induct) auto

lemma first_free_id_bounds:
  assumes "tbl_inv t"
  shows "0 \<le> first_free_id t \<and> first_free_id t \<le> ncdf t"
proof -
  have "free_from (take (nat (ncdf t)) (slots t)) \<le> nat (ncdf t)"
    using free_from_le [of "take (nat (ncdf t)) (slots t)"] by simp
  then have "int (free_from (take (nat (ncdf t)) (slots t))) \<le> int (nat (ncdf t))"
    by (simp only: of_nat_le_iff)
  with assms show ?thesis by (simp add: first_free_id_def tbl_inv_def)
qed

lemma first_free_id_free:
  assumes "tbl_inv t" "first_free_id t < ncdf t"
  shows "HNDLE t (first_free_id t) = None"
proof -
  let ?xs = "take (nat (ncdf t)) (slots t)"
  have len: "length ?xs = nat (ncdf t)"
    using tbl_inv_ncdf_le_length [OF assms(1)] by simp
  have lt: "free_from ?xs < length ?xs"
    using assms(2) len by (simp add: first_free_id_def)
  have "?xs ! free_from ?xs = None" using lt by (rule free_from_at)
  then have "slots t ! free_from ?xs = None" using lt len by simp
  then show ?thesis
    using assms HNDLE_nth [OF assms(1)] first_free_id_bounds [OF assms(1)]
    by (simp add: first_free_id_def)
qed

lemma first_free_id_least:
  assumes "tbl_inv t" "0 \<le> j" "j < first_free_id t"
  shows "HNDLE t j \<noteq> None"
proof -
  let ?xs = "take (nat (ncdf t)) (slots t)"
  have j: "nat j < free_from ?xs" using assms(2,3) by (simp add: first_free_id_def)
  then have "?xs ! nat j \<noteq> None" by (rule free_from_before)
  moreover have "nat j < nat (ncdf t)"
    using j free_from_le [of ?xs] by (simp only: length_take min_def split: if_splits)
  then have "j < ncdf t" using assms(2) by (simp add: nat_less_eq_zless)
  ultimately show ?thesis
    using assms HNDLE_nth [OF assms(1)] by simp
qed

subsection \<open>Installing and retiring slots\<close>

lemma slots_field_updates [table_simps]:
  "slots (t\<lparr>ncdf := n\<rparr>) = slots t" "slots (t\<lparr>curr_opened := c\<rparr>) = slots t"
  by (simp_all add: slots_def)

lemma live_count_curr_update [table_simps]:
  "live_count (t\<lparr>curr_opened := c\<rparr>) = live_count t"
  by (simp add: live_count_def table_simps)

lemma live_count_set_slot:
  assumes "tbl_inv t" "0 \<le> i" "i < ncdf t"
  shows "int (live_count (set_slot i v t)) =
         int (live_count t) - of_bool (HNDLE t i \<noteq> None) + of_bool (v \<noteq> None)"
proof -
  let ?n = "nat (ncdf t)"
  have k: "nat i < ?n" using assms(2,3) by simp
  have len: "?n \<le> length (slots t)" by (rule tbl_inv_ncdf_le_length [OF assms(1)])
  have "take ?n ((slots t)[nat i := v]) = (take ?n (slots t))[nat i := v]"
    using k by (rule take_update_inside)
  moreover have "take ?n (slots t) ! nat i = slots t ! nat i" using k by simp
  ultimately show ?thesis
    using length_filter_update_int [of "nat i" "take ?n (slots t)" "\<lambda>x. x \<noteq> None" v] k len
      HNDLE_nth [OF assms]
    by (simp add: live_count_def table_simps)
qed

lemma install_slot_inv:
  assumes inv: "tbl_inv t" and alloc: "cdfs t \<noteq> None"
    and i: "i = first_free_id t" and cap: "i < max_NC_open t"
  shows "tbl_inv (install_slot i h t)"
proof -
  have b: "0 \<le> i" "i \<le> ncdf t" using first_free_id_bounds [OF inv] i by auto
  have len: "int (length (slots t)) = max_NC_open t" by (rule tbl_inv_length [OF inv alloc])
  show ?thesis
  proof (cases "i < ncdf t")
    case True
    have "HNDLE t i = None" using first_free_id_free [OF inv] i True by simp
    then have "int (live_count (set_slot i (Some h) t)) = int (live_count t) + 1"
      using live_count_set_slot [OF inv b(1) True] by simp
    with inv True alloc show ?thesis
      by (auto simp add: install_slot_def tbl_inv_def table_simps Let_def live_count_def
               set_slot_def slots_def split: option.splits)
  next
    case False
    with b have top: "i = ncdf t" by simp
    let ?n = "nat (ncdf t)"
    have lt: "?n < length (slots t)" using top cap len b by linarith
    have "take (Suc ?n) ((slots t)[?n := Some h]) = take ?n (slots t) @ [Some h]"
      using lt by (simp add: take_Suc_conv_app_nth take_update_outside)
    then have "live_count (install_slot i h t) = Suc (live_count t)"
      using top b by (simp add: install_slot_def live_count_def table_simps Let_def nat_add_distrib)
    with inv top cap alloc show ?thesis
      by (auto simp add: install_slot_def tbl_inv_def Let_def set_slot_def split: option.splits)
  qed
qed

lemma HNDLE_install:
  assumes inv: "tbl_inv t" and alloc: "cdfs t \<noteq> None"
    and i: "i = first_free_id t" and cap: "i < max_NC_open t"
  shows "HNDLE (install_slot i h t) = (HNDLE t)(i \<mapsto> h)"
proof
  fix j
  let ?t' = "install_slot i h t"
  have inv': "tbl_inv ?t'" by (rule install_slot_inv [OF assms])
  have b: "0 \<le> i" "i \<le> ncdf t" using first_free_id_bounds [OF inv] i by auto
  have n': "ncdf ?t' = (if i = ncdf t then ncdf t + 1 else ncdf t)"
    by (simp add: install_slot_def Let_def table_simps)
  have s': "slots ?t' = (slots t)[nat i := Some h]"
    by (simp add: install_slot_def Let_def table_simps)
  show "HNDLE ?t' j = ((HNDLE t)(i \<mapsto> h)) j"
  proof (cases "0 \<le> j \<and> j < ncdf ?t'")
    case True
    have "nat j < nat (ncdf ?t')" using True by simp
    then have lenj: "nat j < length (slots t)"
      using tbl_inv_ncdf_le_length [OF inv'] s' by (metis length_list_update order_less_le_trans)
    show ?thesis
    proof (cases "j = i")
      case True
      with \<open>0 \<le> j \<and> j < ncdf ?t'\<close> lenj show ?thesis
        using HNDLE_nth [OF inv'] s' by simp
    next
      case False
      then have "nat j \<noteq> nat i" using b True by (metis eq_nat_nat_iff)
      moreover have "j < ncdf t" using False True n' by (auto split: if_splits)
      ultimately show ?thesis
        using HNDLE_nth [OF inv'] HNDLE_nth [OF inv] True False s' by simp
    qed
  next
    case False
    then have "j \<noteq> i" using n' b by (auto split: if_splits)
    moreover have "\<not> (0 \<le> j \<and> j < ncdf t)" using False n' by (auto split: if_splits)
    ultimately show ?thesis using False by (simp add: HNDLE_outside)
  qed
qed

lemma retire_slot_inv:
  assumes inv: "tbl_inv t" and live: "HNDLE t i \<noteq> None"
  shows "tbl_inv (retire_slot i t)"
proof -
  have r: "0 \<le> i" "i < ncdf t" using live by (auto simp add: HNDLE_def split: if_splits)
  have alloc: "cdfs t \<noteq> None" using inv r by (auto simp add: tbl_inv_def split: option.splits)
  let ?t1 = "set_slot i None t"
  have c1: "int (live_count ?t1) = int (live_count t) - 1"
    using live_count_set_slot [OF inv r, of None] live by simp
  let ?n = "nat (ncdf t)"
  have len: "?n \<le> length (slots t)" by (rule tbl_inv_ncdf_le_length [OF inv])
  show ?thesis
  proof (cases "i = ncdf t - 1")
    case True
    have "nat i < length (slots t)" using r len by linarith
    then have "take (nat i) ((slots t)[nat i := None]) = take (nat i) (slots t)"
      by (simp add: take_update_outside)
    moreover have "take (Suc (nat i)) ((slots t)[nat i := None]) =
                   take (nat i) (slots t) @ [None]"
      using \<open>nat i < length (slots t)\<close> by (simp add: take_Suc_conv_app_nth)
    moreover have "Suc (nat i) = ?n" using True r by linarith
    ultimately have "live_count (?t1\<lparr>ncdf := ncdf t - 1\<rparr>) = live_count ?t1"
      using True by (simp add: live_count_def table_simps)
    with c1 inv alloc True r show ?thesis
      by (auto simp add: retire_slot_def tbl_inv_def Let_def ncreset_cdflist_def table_simps
               live_count_def slots_def set_slot_def split: option.splits)
  next
    case False
    then have "ncdf t \<noteq> 0" using r by linarith
    with c1 inv alloc False r show ?thesis
      by (auto simp add: retire_slot_def tbl_inv_def Let_def table_simps set_slot_def
               split: option.splits)
  qed
qed

lemma HNDLE_retire:
  assumes inv: "tbl_inv t" and live: "HNDLE t i \<noteq> None"
  shows "HNDLE (retire_slot i t) = (HNDLE t)(i := None)"
proof
  fix j
  let ?t' = "retire_slot i t"
  have inv': "tbl_inv ?t'" by (rule retire_slot_inv [OF assms])
  have r: "0 \<le> i" "i < ncdf t" using live by (auto simp add: HNDLE_def split: if_splits)
  have n': "ncdf ?t' \<le> ncdf t"
    by (simp add: retire_slot_def Let_def table_simps ncreset_cdflist_def)
  show "HNDLE ?t' j = ((HNDLE t)(i := None)) j"
  proof (cases "0 \<le> j \<and> j < ncdf ?t'")
    case True
    then have nz: "ncdf ?t' \<noteq> 0" by simp
    then have s': "slots ?t' = (slots t)[nat i := None]"
      by (auto simp add: retire_slot_def Let_def table_simps ncreset_cdflist_def)
    have "j < ncdf t" using True n' by simp
    then have "nat j < length (slots t)"
      using True tbl_inv_ncdf_le_length [OF inv] by linarith
    then show ?thesis
      using HNDLE_nth [OF inv'] HNDLE_nth [OF inv] True s' \<open>j < ncdf t\<close> r
      by (auto simp add: nth_list_update eq_nat_nat_iff)
  next
    case False
    show ?thesis
    proof (cases "j = i")
      case True
      with False show ?thesis by (simp add: HNDLE_outside)
    next
      case False
      have "\<not> (0 \<le> j \<and> j < ncdf ?t') \<Longrightarrow> j \<noteq> i \<Longrightarrow> HNDLE t j = None"
      proof -
        assume out: "\<not> (0 \<le> j \<and> j < ncdf ?t')" and ne: "j \<noteq> i"
        show "HNDLE t j = None"
        proof (cases "0 \<le> j \<and> j < ncdf t")
          case True
          then have "j = ncdf t - 1 \<or> ncdf ?t' = 0" using out r ne
            by (auto simp add: retire_slot_def Let_def table_simps ncreset_cdflist_def
                     split: if_splits)
          moreover have "ncdf ?t' = 0 \<Longrightarrow> ncdf t = 1 \<and> i = 0"
            using r by (auto simp add: retire_slot_def Let_def table_simps ncreset_cdflist_def
                             split: if_splits)
          ultimately have "j = ncdf t - 1 \<and> i \<noteq> ncdf t - 1" using ne True by auto
          then have "ncdf ?t' = ncdf t" 
            by (simp add: retire_slot_def Let_def table_simps ncreset_cdflist_def)
          with out True show ?thesis by simp
        qed (simp add: HNDLE_outside)
      qed
      with \<open>\<not> (0 \<le> j \<and> j < ncdf ?t')\<close> False show ?thesis by (simp add: HNDLE_outside)
    qed
  qed
qed

subsection \<open>Resizing\<close>

lemma MAX_AVAIL_OPENFILES_bounds: "0 \<le> MAX_AVAIL_OPENFILES rlim \<and> MAX_AVAIL_OPENFILES rlim \<le> 20000"
proof (cases "rlim - 3 > word_of_int H4_MAX_AVAIL_OPENFILES")
  case True
  then show ?thesis by (simp add: MAX_AVAIL_OPENFILES_def H4_MAX_AVAIL_OPENFILES_def)
next
  case False
  then have "rlim - 3 \<le> 20000" by (simp add: H4_MAX_AVAIL_OPENFILES_def not_less)
  then have "uint (rlim - 3) \<le> uint (20000 :: u64)" by (simp add: word_le_def)
  with False show ?thesis by (simp add: MAX_AVAIL_OPENFILES_def)
qed

lemma NC_reset_maxopenfiles_fail:
  "fst (NC_reset_maxopenfiles fails rlim req t) = -1 \<Longrightarrow> tbl_inv t \<Longrightarrow>
   snd (NC_reset_maxopenfiles fails rlim req t) = t"
  using MAX_AVAIL_OPENFILES_bounds [of rlim] by (auto simp add: NC_reset_maxopenfiles_def Let_def nc_malloc_def tbl_inv_def
           split: if_splits option.splits)

text \<open>The grow branch, once the guards have passed.\<close>

lemma reset_grow_list:
  assumes "n \<le> a" "n \<le> length old"
  shows "length (take a (take n old @ drop n (replicate a x))) = a"
    and "take n (take a (take n old @ drop n (replicate a x))) = take n old"
  using assms by (simp_all add: min_def)

lemma NC_reset_maxopenfiles_grow:
  assumes inv: "tbl_inv t" and sys: "ncdf t \<le> MAX_AVAIL_OPENFILES rlim"
    and r: "NC_reset_maxopenfiles fails rlim req t = (n, t')"
  shows "tbl_inv t' \<and> ncdf t' = ncdf t \<and> curr_opened t' = curr_opened t \<and>
         take (nat (ncdf t)) (slots t') = take (nat (ncdf t)) (slots t) \<and>
         (n \<noteq> -1 \<longrightarrow> n = max_NC_open t' \<and> ncdf t \<le> n)"
proof -
  let ?s = "MAX_AVAIL_OPENFILES rlim"
  let ?a = "if req > ?s then ?s else req"
  have s0: "0 \<le> ?s" using MAX_AVAIL_OPENFILES_bounds by blast
  have n0: "0 \<le> ncdf t" "ncdf t \<le> max_NC_open t" using inv by (auto simp add: tbl_inv_def)
  consider (neg) "req < 0" | (zero) "req = 0" | (keep) "0 < req" "req < max_NC_open t" "req \<le> ncdf t"
    | (grow) "0 < req" "\<not> (req < max_NC_open t \<and> req \<le> ncdf t)" by linarith
  then show ?thesis
  proof cases
    case neg
    with r inv n0 show ?thesis by (auto simp add: NC_reset_maxopenfiles_def)
  next
    case zero
    with r inv n0 show ?thesis
      by (auto simp add: NC_reset_maxopenfiles_def nc_malloc_def tbl_inv_def live_count_def slots_def
               split: if_splits option.splits)
  next
    case keep
    with r n0 inv show ?thesis by (auto simp add: NC_reset_maxopenfiles_def)
  next
    case grow
    have a: "ncdf t \<le> ?a" using grow sys n0 by auto
    show ?thesis
    proof (cases fails)
      case True
      with r grow inv show ?thesis by (auto simp add: NC_reset_maxopenfiles_def nc_malloc_def)
    next
      case False
      then have t': "t' = t\<lparr>cdfs := Some (case cdfs t of None \<Rightarrow> replicate (nat ?a) None
                         | Some old \<Rightarrow> take (nat ?a) (take (nat (ncdf t)) old @
                                         drop (nat (ncdf t)) (replicate (nat ?a) None))),
                         max_NC_open := ?a\<rparr>" and nv: "n = ?a"
        using r grow by (auto simp add: NC_reset_maxopenfiles_def nc_malloc_def Let_def)
      have lens: "nat (ncdf t) \<le> nat ?a" using a by simp
      show ?thesis
      proof (cases "cdfs t")
        case None
        then have "ncdf t = 0" using inv by (simp add: tbl_inv_def)
        with None t' nv a inv s0 show ?thesis
          by (auto simp add: tbl_inv_def live_count_def slots_def)
      next
        case (Some old)
        have lo: "nat (ncdf t) \<le> length old"
          using tbl_inv_ncdf_le_length [OF inv] Some by (simp add: slots_def)
        note g = reset_grow_list [OF lens lo, of None]
        from Some t' nv a inv s0 g show ?thesis
          by (auto simp add: tbl_inv_def live_count_def slots_def)
      qed
    qed
  qed
qed

lemma HNDLE_prefix:
  assumes "ncdf t' = ncdf t" "take (nat (ncdf t)) (slots t') = take (nat (ncdf t)) (slots t)"
  shows "HNDLE t' = HNDLE t"
proof
  fix i
  show "HNDLE t' i = HNDLE t i"
  proof (cases "0 \<le> i \<and> i < ncdf t")
    case True
    then have k: "nat i < nat (ncdf t)" by simp
    have e: "\<And>xs :: 'a option list. (case drop (nat i) xs of [] \<Rightarrow> None | x # _ \<Rightarrow> x) =
            (case drop (nat i) (take (nat (ncdf t)) xs) of [] \<Rightarrow> None | x # _ \<Rightarrow> x)"
      using True by (simp add: drop_take list.case_eq_if hd_drop_conv_nth; arith)
    show ?thesis using assms True e [of "slots t'"] e [of "slots t"] by (simp add: HNDLE_def)
  next
    case False
    then show ?thesis using assms(1) by (simp add: HNDLE_outside)
  qed
qed

lemma first_free_id_prefix:
  "ncdf t' = ncdf t \<Longrightarrow> take (nat (ncdf t)) (slots t') = take (nat (ncdf t)) (slots t) \<Longrightarrow>
   first_free_id t' = first_free_id t"
  by (simp add: first_free_id_def)

lemma NC_reset_maxopenfiles_keeps:
  assumes inv: "tbl_inv t" and sys: "ncdf t \<le> MAX_AVAIL_OPENFILES rlim"
    and r: "NC_reset_maxopenfiles fails rlim req t = (n, t')"
  shows "tbl_inv t' \<and> HNDLE t' = HNDLE t \<and> first_free_id t' = first_free_id t \<and>
         ncdf t' = ncdf t \<and> curr_opened t' = curr_opened t \<and>
         (n \<noteq> -1 \<longrightarrow> n = max_NC_open t' \<and> ncdf t \<le> n \<and> cdfs t' \<noteq> None)"
proof -
  note g = NC_reset_maxopenfiles_grow [OF inv sys r]
  have "n \<noteq> -1 \<Longrightarrow> cdfs t' \<noteq> None"
    using r inv by (auto simp add: NC_reset_maxopenfiles_def Let_def nc_malloc_def tbl_inv_def
                         split: if_splits option.splits)
  with g show ?thesis using HNDLE_prefix [of t' t] first_free_id_prefix [of t' t] by auto
qed

lemma nc_alloc_table_ok:
  assumes inv: "tbl_inv t" and a: "nc_alloc_table fails rlim t = Some t1"
  shows "tbl_inv t1 \<and> HNDLE t1 = HNDLE t \<and> first_free_id t1 = first_free_id t \<and>
         ncdf t1 = ncdf t \<and> curr_opened t1 = curr_opened t \<and> max_NC_open t \<le> max_NC_open t1 \<and>
         cdfs t1 \<noteq> None"
proof (cases "cdfs t = None")
  case True
  then have z: "ncdf t = 0" using inv by (simp add: tbl_inv_def)
  obtain r where r: "NC_reset_maxopenfiles fails rlim 0 t = (r, t1)" "r \<noteq> -1"
    using a True by (auto simp add: nc_alloc_table_def split: prod.splits if_splits)
  have "ncdf t \<le> MAX_AVAIL_OPENFILES rlim" using z MAX_AVAIL_OPENFILES_bounds by simp
  note k = NC_reset_maxopenfiles_keeps [OF inv this r(1)]
  have "max_NC_open t1 = max_NC_open t"
    using r True by (auto simp add: NC_reset_maxopenfiles_def nc_malloc_def split: option.splits if_splits)
  with k r(2) show ?thesis by simp
next
  case False
  have "t1 = t" using a unfolding nc_alloc_table_def if_not_P [OF False] by simp
  then show ?thesis using inv False by simp
qed

lemma NC_reset_maxopenfiles_grow_cap:
  assumes "NC_reset_maxopenfiles fails rlim req t = (n, t')" "n \<noteq> -1"
    "0 < req" "\<not> (req < max_NC_open t \<and> req \<le> ncdf t)" "req \<le> MAX_AVAIL_OPENFILES rlim"
  shows "max_NC_open t' = req"
  using assms by (auto simp add: NC_reset_maxopenfiles_def Let_def split: option.splits)

lemma nc_grow_table_ok:
  assumes inv: "tbl_inv t" and alloc: "cdfs t \<noteq> None" and sys: "ncdf t \<le> MAX_AVAIL_OPENFILES rlim"
    and g: "nc_grow_table fails rlim (first_free_id t) t = Some t2"
  shows "tbl_inv t2 \<and> HNDLE t2 = HNDLE t \<and> first_free_id t2 = first_free_id t \<and>
         ncdf t2 = ncdf t \<and> curr_opened t2 = curr_opened t \<and> cdfs t2 \<noteq> None \<and>
         first_free_id t < max_NC_open t2"
proof -
  have b: "0 \<le> first_free_id t" "first_free_id t \<le> ncdf t" using first_free_id_bounds [OF inv] by auto
  have m: "ncdf t \<le> max_NC_open t" using inv by (simp add: tbl_inv_def)
  show ?thesis
  proof (cases "first_free_id t = ncdf t \<and> ncdf t \<ge> max_NC_open t")
    case False
    have "t2 = t" using g unfolding nc_grow_table_def if_not_P [OF False] by simp
    with False b m inv alloc show ?thesis by auto
  next
    case True
    let ?l = "MAX_AVAIL_OPENFILES rlim"
    have ne: "max_NC_open t \<noteq> ?l" using g True by (auto simp add: nc_grow_table_def)
    obtain r where r: "NC_reset_maxopenfiles fails rlim ?l t = (r, t2)" "r \<noteq> -1"
      using g True ne by (auto simp add: nc_grow_table_def split: prod.splits if_splits)
    note k = NC_reset_maxopenfiles_keeps [OF inv sys r(1)]
    have lt: "ncdf t < ?l" using True m ne sys by auto
    then have "max_NC_open t2 = ?l"
      using NC_reset_maxopenfiles_grow_cap [OF r] b True by auto
    with k r(2) True lt show ?thesis by auto
  qed
qed

lemma nc_alloc_table_allocated: "cdfs t \<noteq> None \<Longrightarrow> nc_alloc_table fails rlim t = Some t"
  unfolding nc_alloc_table_def by (rule if_not_P)

lemma slot_in_array_first_free:
  assumes "tbl_inv t" "cdfs t \<noteq> None" "first_free_id t < max_NC_open t"
  shows "slot_in_array t (first_free_id t)"
  using assms first_free_id_bounds [OF assms(1)] tbl_inv_length [OF assms(1,2)]
  by (auto simp add: slot_in_array_def slots_def)

lemma slot_in_array_live: "tbl_inv t \<Longrightarrow> HNDLE t i \<noteq> None \<Longrightarrow> slot_in_array t i"
  using tbl_inv_length [of t] by (auto simp add: HNDLE_def slot_in_array_def slots_def tbl_inv_def
                                       split: if_splits option.splits)

lemma HNDLE_range: "HNDLE t i \<noteq> None \<Longrightarrow> 0 \<le> i \<and> i < ncdf t"
  by (auto simp add: HNDLE_def split: if_splits)

lemma set_slot_live:
  assumes inv: "tbl_inv t" and live: "HNDLE t i \<noteq> None"
  shows "tbl_inv (set_slot i (Some q) t) \<and> HNDLE (set_slot i (Some q) t) = (HNDLE t)(i \<mapsto> q)"
proof
  have r: "0 \<le> i" "i < ncdf t" using HNDLE_range [OF live] by auto
  have lc: "live_count (set_slot i (Some q) t) = live_count t"
    using live_count_set_slot [OF inv r, of "Some q"] live by simp
  have len: "length (slots (set_slot i (Some q) t)) = length (slots t)" by (simp add: table_simps)
  then show inv': "tbl_inv (set_slot i (Some q) t)"
    using inv lc by (auto simp add: tbl_inv_def table_simps slots_def set_slot_def split: option.splits)
  show "HNDLE (set_slot i (Some q) t) = (HNDLE t)(i \<mapsto> q)"
  proof
    fix j
    show "HNDLE (set_slot i (Some q) t) j = ((HNDLE t)(i \<mapsto> q)) j"
    proof (cases "0 \<le> j \<and> j < ncdf t")
      case True
      have "nat j < length (slots t)" using True tbl_inv_ncdf_le_length [OF inv] by linarith
      then show ?thesis using HNDLE_nth [OF inv' _ _, of j] HNDLE_nth [OF inv, of j] True r
        by (auto simp add: table_simps nth_list_update)
    next
      case False
      then show ?thesis using r by (auto simp add: HNDLE_outside table_simps)
    qed
  qed
qed

lemma curr_opened_install [simp]: "curr_opened (install_slot i h t) = curr_opened t + 1"
  by (simp add: install_slot_def Let_def set_slot_def)

lemma first_free_id_dom:
  assumes "tbl_inv t"
  shows "first_free_id t \<notin> dom (HNDLE t) \<and> (\<forall>j. 0 \<le> j \<and> j < first_free_id t \<longrightarrow> j \<in> dom (HNDLE t))"
proof -
  have "HNDLE t (first_free_id t) = None"
  proof (cases "first_free_id t < ncdf t")
    case True
    then show ?thesis by (rule first_free_id_free [OF assms])
  next
    case False
    then show ?thesis by (simp add: HNDLE_outside)
  qed
  then show ?thesis using first_free_id_least [OF assms] by auto
qed

lemma curr_opened_retire [simp]: "curr_opened (retire_slot i t) = curr_opened t - 1"
  by (simp add: retire_slot_def Let_def set_slot_def ncreset_cdflist_def)

lemma retire_slot_mark:
  assumes inv: "tbl_inv t" and live: "HNDLE t i \<noteq> None"
  shows "ncdf (retire_slot i t) = (if i = ncdf t - 1 then ncdf t - 1 else ncdf t) \<and>
         (cdfs (retire_slot i t) = None \<longleftrightarrow> ncdf (retire_slot i t) = 0)"
proof -
  have "0 < ncdf t" using HNDLE_range [OF live] by simp
  then have "cdfs t \<noteq> None" using inv by (auto simp add: tbl_inv_def split: option.splits)
  then show ?thesis
    by (auto simp add: retire_slot_def Let_def set_slot_def ncreset_cdflist_def)
qed

lemma slot_in_array_retire:
  assumes inv: "tbl_inv t" and live: "HNDLE t i \<noteq> None" and ne: "i \<noteq> j"
  shows "slot_in_array (retire_slot j t) i"
proof -
  have r: "0 \<le> i" "i < ncdf t" using HNDLE_range [OF live] by auto
  have sa: "slot_in_array t i" by (rule slot_in_array_live [OF inv live])
  have "ncdf (retire_slot j t) \<noteq> 0" using r ne
    by (simp add: retire_slot_def Let_def set_slot_def ncreset_cdflist_def)
  then show ?thesis using sa
    by (auto simp add: retire_slot_def Let_def set_slot_def ncreset_cdflist_def slot_in_array_def
             split: option.splits if_splits)
qed

lemma nc_grow_table_stuck:
  assumes "cdfs t \<noteq> None" "ncdf t = max_NC_open t" "MAX_AVAIL_OPENFILES rlim < max_NC_open t"
  shows "nc_grow_table fails rlim (ncdf t) t = Some t"
  using assms MAX_AVAIL_OPENFILES_bounds [of rlim]
  by (auto simp add: nc_grow_table_def NC_reset_maxopenfiles_def Let_def)

section \<open>Properties\<close>

text \<open>
  C21. Opening into the table refines inserting into a finite map at its least
  free key: when the table is allocated and the first free identifier is below
  the capacity, installing a handle there keeps the invariant, maps that
  identifier to the handle and leaves every other identifier as it was; the
  identifier was free, and every identifier below it is live.
\<close>

theorem install_slot_refines:
  assumes "tbl_inv t" "cdfs t \<noteq> None" "first_free_id t < max_NC_open t"
  shows "tbl_inv (install_slot (first_free_id t) h t) \<and>
         HNDLE (install_slot (first_free_id t) h t) = (HNDLE t)(first_free_id t \<mapsto> h) \<and>
         first_free_id t \<notin> dom (HNDLE t) \<and>
         (\<forall>j. 0 \<le> j \<and> j < first_free_id t \<longrightarrow> j \<in> dom (HNDLE t))"
proof (intro conjI allI impI)
  show "tbl_inv (install_slot (first_free_id t) h t)"
    using assms by (rule install_slot_inv [OF _ _ refl])
  show "HNDLE (install_slot (first_free_id t) h t) = (HNDLE t)(first_free_id t \<mapsto> h)"
    using assms by (rule HNDLE_install [OF _ _ refl])
  show "first_free_id t \<notin> dom (HNDLE t)"
  proof (cases "first_free_id t < ncdf t")
    case True
    then show ?thesis using first_free_id_free [OF assms(1)] by auto
  next
    case False
    then show ?thesis by (auto simp add: HNDLE_outside)
  qed
  fix j assume "0 \<le> j \<and> j < first_free_id t"
  then show "j \<in> dom (HNDLE t)" using first_free_id_least [OF assms(1)] by auto
qed

lemma install_slot_refines_witness:
  "tbl_inv (\<lparr>cdfs = Some [Some ''a'', None, Some ''c'', None], ncdf = 3, curr_opened = 2,
            max_NC_open = 4\<rparr> :: string cdf_table) \<and>
   first_free_id (\<lparr>cdfs = Some [Some ''a'', None, Some ''c'', None], ncdf = 3, curr_opened = 2,
            max_NC_open = 4\<rparr> :: string cdf_table) = 1 \<and>
   HNDLE (install_slot 1 ''b'' \<lparr>cdfs = Some [Some ''a'', None, Some ''c'', None], ncdf = 3,
            curr_opened = 2, max_NC_open = 4\<rparr>) 1 = Some ''b''"
proof -
  let ?t = "\<lparr>cdfs = Some [Some ''a'', None, Some ''c'', None], ncdf = 3, curr_opened = 2,
            max_NC_open = 4\<rparr> :: string cdf_table"
  have i: "tbl_inv ?t" by (simp add: tbl_inv_def live_count_def slots_def)
  have f: "first_free_id ?t = 1" by (simp add: first_free_id_def slots_def)
  have "HNDLE (install_slot (first_free_id ?t) ''b'' ?t) = (HNDLE ?t)(first_free_id ?t \<mapsto> ''b'')"
    using install_slot_refines [of ?t "''b''"] i f by simp
  then show ?thesis using i f by simp
qed

text \<open>
  C22. Closing refines deleting from the finite map: retiring a live identifier
  keeps the invariant, unmaps exactly that identifier and counts one file less.
\<close>

theorem retire_slot_refines:
  assumes "tbl_inv t" "HNDLE t i \<noteq> None"
  shows "tbl_inv (retire_slot i t) \<and> HNDLE (retire_slot i t) = (HNDLE t)(i := None) \<and>
         curr_opened (retire_slot i t) = curr_opened t - 1"
proof (intro conjI)
  show "tbl_inv (retire_slot i t)" using assms by (rule retire_slot_inv)
  show "HNDLE (retire_slot i t) = (HNDLE t)(i := None)" using assms by (rule HNDLE_retire)
  show "curr_opened (retire_slot i t) = curr_opened t - 1"
    by (simp add: retire_slot_def Let_def ncreset_cdflist_def table_simps)
qed

lemma retire_slot_refines_witness:
  "curr_opened (retire_slot 2 (\<lparr>cdfs = Some [Some ''a'', None, Some ''c'', None], ncdf = 3,
      curr_opened = 2, max_NC_open = 4\<rparr> :: string cdf_table)) = 1 \<and>
   HNDLE (retire_slot 2 (\<lparr>cdfs = Some [Some ''a'', None, Some ''c'', None], ncdf = 3,
      curr_opened = 2, max_NC_open = 4\<rparr> :: string cdf_table)) 2 = None"
proof -
  let ?t = "\<lparr>cdfs = Some [Some ''a'', None, Some ''c'', None], ncdf = 3, curr_opened = 2,
            max_NC_open = 4\<rparr> :: string cdf_table"
  have i: "tbl_inv ?t" by (simp add: tbl_inv_def live_count_def slots_def)
  have l: "HNDLE ?t 2 \<noteq> None" by (simp add: HNDLE_def slots_def)
  show ?thesis using retire_slot_refines [OF i l] by simp
qed

text \<open>
  C29. A successful request to \<open>NC_reset_maxopenfiles\<close> up to the system limit never
  returns a capacity below the number of files open or the high-water mark: the
  result is the new capacity, and the table keeps its invariant, its identifiers and
  its count.
\<close>

theorem NC_reset_maxopenfiles_covers_live:
  assumes inv: "tbl_inv t" and r: "NC_reset_maxopenfiles fails rlim req t = (n, t')"
    and ok: "n \<noteq> -1" and req: "req \<le> MAX_AVAIL_OPENFILES rlim"
  shows "curr_opened t \<le> n \<and> ncdf t \<le> n \<and> n = max_NC_open t' \<and> tbl_inv t' \<and>
         HNDLE t' = HNDLE t \<and> curr_opened t' = curr_opened t"
proof -
  have live: "curr_opened t \<le> ncdf t"
    using inv live_count_le [of t] by (simp add: tbl_inv_def le_nat_iff)
  show ?thesis
  proof (cases "ncdf t \<le> MAX_AVAIL_OPENFILES rlim")
    case True
    then show ?thesis using NC_reset_maxopenfiles_keeps [OF inv True r] ok live by simp
  next
    case False
    then have "n = max_NC_open t \<and> t' = t" using r req inv ok
      by (auto simp add: NC_reset_maxopenfiles_def Let_def tbl_inv_def split: if_splits option.splits)
    then show ?thesis using inv live by (simp add: tbl_inv_def)
  qed
qed

lemma NC_reset_maxopenfiles_covers_live_witness:
  "curr_opened (\<lparr>cdfs = Some [Some (0::nat), None], ncdf = 1, curr_opened = 1, max_NC_open = 2\<rparr>) \<le>
     fst (NC_reset_maxopenfiles False 1024 40
            \<lparr>cdfs = Some [Some (0::nat), None], ncdf = 1, curr_opened = 1, max_NC_open = 2\<rparr>)"
  using NC_reset_maxopenfiles_covers_live [OF _ prod.collapse [symmetric]]
  by (simp add: tbl_inv_def live_count_def slots_def NC_reset_maxopenfiles_def nc_malloc_def
                MAX_AVAIL_OPENFILES_def H4_MAX_AVAIL_OPENFILES_def Let_def)

end
