(* ===== verification/Codec.thy ===== *)
theory Codec
  imports NC_Types
begin

text \<open>
  The codec gateway: the header encoder and decoder (\<open>xdr_cdf\<close>), the record-count
  writer (\<open>xdr_numrecs\<close>), the fill writer (\<open>xdr_NC_fill\<close>) and the header length
  (\<open>NC_xlen_cdf\<close>). They live outside \<open>file.c\<close>; the specification treats them as a
  black box with a success signal, so the model takes them as a record of functions
  \<open>codec\<close> that every session operation receives. The wrappers below give their effect
  on a handle's stream: the header is written from offset 0 and leaves the stream at
  its end, the record count is written at a fixed offset of the header, a fill pattern
  is written at the current position. \<open>codec_ok\<close> is the contract the layout relies
  on: the encoded header is \<open>NC_xlen_cdf\<close> bytes long and a fill pattern is as long
  as its variable.
\<close>

record codec =
  c_xlen :: "nc \<Rightarrow> u64"
  c_header :: "nc \<Rightarrow> byte list option"
  c_decode :: "byte list \<Rightarrow> (nc_var list option \<times> u64) option"
  c_kind :: "byte list \<Rightarrow> file_kind option"
  c_numrecs :: "u64 \<Rightarrow> byte list"
  c_numrecs_pos :: nat
  c_fill :: "nc_var \<Rightarrow> byte list"
  c_create_kind :: file_kind

definition codec_ok :: "codec \<Rightarrow> bool" where
  "codec_ok cg \<longleftrightarrow>
     (\<forall>h bs. c_header cg h = Some bs \<longrightarrow> length bs = unat (c_xlen cg h)) \<and>
     (\<forall>v. length (c_fill cg v) = unat (v_len v))"

text \<open>\<open>xdr_cdf\<close> with \<open>x_op = XDR_ENCODE\<close>: write the header of the handle.\<close>

definition xdr_cdf_encode :: "codec \<Rightarrow> os_state \<Rightarrow> nc \<Rightarrow> (os_state \<times> nc) option" where
  "xdr_cdf_encode cg os h =
     (case c_header cg h of
        None \<Rightarrow> None
      | Some bs \<Rightarrow>
          (case h4_xdr_setpos os (xdrs h) 0 of
             None \<Rightarrow> None
           | Some x \<Rightarrow>
               (case h4_xdr_putbytes os x bs of
                  None \<Rightarrow> None
                | Some (os', x') \<Rightarrow> Some (os', h\<lparr>xdrs := x'\<rparr>))))"

text \<open>\<open>xdr_cdf\<close> with \<open>x_op = XDR_DECODE\<close>, with \<open>NC_computeshapes\<close>: reread the schema.\<close>

definition xdr_cdf_decode :: "codec \<Rightarrow> os_state \<Rightarrow> nc \<Rightarrow> nc option" where
  "xdr_cdf_decode cg os h =
     (case files os (x_ino (xdrs h)) of
        None \<Rightarrow> None
      | Some d \<Rightarrow>
          (case c_decode cg d of
             None \<Rightarrow> None
           | Some (vs, nr) \<Rightarrow> Some (h\<lparr>vars := vs, numrecs := nr\<rparr>)))"

definition xdr_numrecs :: "codec \<Rightarrow> os_state \<Rightarrow> nc \<Rightarrow> (os_state \<times> nc) option" where
  "xdr_numrecs cg os h =
     (case h4_xdr_setpos os (xdrs h) (c_numrecs_pos cg) of
        None \<Rightarrow> None
      | Some x \<Rightarrow>
          (case h4_xdr_putbytes os x (c_numrecs cg (numrecs h)) of
             None \<Rightarrow> None
           | Some (os', x') \<Rightarrow> Some (os', h\<lparr>xdrs := x'\<rparr>)))"

definition xdr_NC_fill :: "codec \<Rightarrow> os_state \<Rightarrow> xdr \<Rightarrow> nc_var \<Rightarrow> (os_state \<times> xdr) option" where
  "xdr_NC_fill cg os x v = h4_xdr_putbytes os x (c_fill cg v)"

section \<open>Frame lemmas\<close>

lemma xdr_cdf_encode_frame:
  "xdr_cdf_encode cg os h = Some (os', h') \<Longrightarrow>
   dir os' = dir os \<and> open_fds os' = open_fds os \<and> (\<forall>i. i \<noteq> x_ino (xdrs h) \<longrightarrow> files os' i = files os i) \<and>
   h' = h\<lparr>xdrs := xdrs h'\<rparr> \<and> x_ino (xdrs h') = x_ino (xdrs h)"
  by (auto simp add: xdr_cdf_encode_def h4_xdr_setpos_def h4_xdr_putbytes_def
           split: option.splits if_splits)

lemma xdr_numrecs_frame:
  "xdr_numrecs cg os h = Some (os', h') \<Longrightarrow>
   dir os' = dir os \<and> open_fds os' = open_fds os \<and> (\<forall>i. i \<noteq> x_ino (xdrs h) \<longrightarrow> files os' i = files os i) \<and>
   h' = h\<lparr>xdrs := xdrs h'\<rparr> \<and> x_ino (xdrs h') = x_ino (xdrs h)"
  by (auto simp add: xdr_numrecs_def h4_xdr_setpos_def h4_xdr_putbytes_def
           split: option.splits if_splits)

lemma xdr_NC_fill_frame:
  "xdr_NC_fill cg os x v = Some (os', x') \<Longrightarrow>
   dir os' = dir os \<and> open_fds os' = open_fds os \<and> (\<forall>i. i \<noteq> x_ino x \<longrightarrow> files os' i = files os i) \<and>
   x_ino x' = x_ino x"
  by (auto simp add: xdr_NC_fill_def h4_xdr_putbytes_def split: option.splits)

lemma xdr_cdf_encode_writes:
  "xdr_cdf_encode cg os h = Some (os', h') \<Longrightarrow>
   writes_only os os' \<and> (\<exists>x'. h' = h\<lparr>xdrs := x'\<rparr> \<and> x_ino x' = x_ino (xdrs h))"
  by (auto simp add: xdr_cdf_encode_def h4_xdr_setpos_def dest!: h4_xdr_putbytes_writes
           split: option.splits if_splits)

lemma xdr_numrecs_writes:
  "xdr_numrecs cg os h = Some (os', h') \<Longrightarrow>
   writes_only os os' \<and> (\<exists>x'. h' = h\<lparr>xdrs := x'\<rparr> \<and> x_ino x' = x_ino (xdrs h))"
  by (auto simp add: xdr_numrecs_def h4_xdr_setpos_def dest!: h4_xdr_putbytes_writes
           split: option.splits if_splits)

lemma xdr_NC_fill_writes:
  "xdr_NC_fill cg os x v = Some (os', x') \<Longrightarrow> writes_only os os' \<and> x_ino x' = x_ino x"
  by (simp add: xdr_NC_fill_def h4_xdr_putbytes_writes)

lemma xdr_cdf_encode_at:
  "xdr_cdf_encode cg os h = Some (os', h') \<Longrightarrow> frame_at (x_ino (xdrs h)) os os' \<and> x_ino (xdrs h') = x_ino (xdrs h)"
  using xdr_cdf_encode_writes [of cg os h os' h'] xdr_cdf_encode_frame [of cg os h os' h']
  unfolding frame_at_def by auto

lemma xdr_numrecs_at:
  "xdr_numrecs cg os h = Some (os', h') \<Longrightarrow> frame_at (x_ino (xdrs h)) os os' \<and> x_ino (xdrs h') = x_ino (xdrs h)"
  using xdr_numrecs_writes [of cg os h os' h'] xdr_numrecs_frame [of cg os h os' h']
  unfolding frame_at_def by auto

end
