(* ===== verification/Layout.thy ===== *)
theory Layout
  imports NC_Types
begin

text \<open>
  The layout planner \<open>NC_begins\<close> of \<open>mfhdf/src/file.c\<close>: the two passes over the
  variable array that give each fixed-size variable, then each record variable, its
  byte offset \<open>begin\<close>, starting after the header of \<open>NC_xlen_cdf\<close> bytes, and that
  compute \<open>begin_rec\<close> and \<open>recsize\<close>, with the packing of a lone record variable.
  Offsets and sizes are \<open>unsigned long\<close>: the sums wrap at \<open>2^64\<close>. The reference
  specification is the list of prefix offsets \<open>offsets\<close>; the lemmas show that each
  pass assigns exactly those, leaves every other field and the order alone, and, when
  nothing wraps, lays the variables out contiguously and without overlap.
\<close>

lemma IS_RECVAR_begin_update [simp]: "IS_RECVAR (v\<lparr>v_begin := b\<rparr>) = IS_RECVAR v"
  by (simp add: IS_RECVAR_def)

section \<open>The two passes\<close>

text \<open>First pass: \<open>for\<close> each non-record variable, \<open>begin = index; index += len\<close>.\<close>

fun begins_fixed :: "u64 \<Rightarrow> nc_var list \<Rightarrow> nc_var list \<times> u64" where
  "begins_fixed idx [] = ([], idx)"
| "begins_fixed idx (v # vs) =
     (if IS_RECVAR v then (let (vs', i') = begins_fixed idx vs in (v # vs', i'))
      else (let (vs', i') = begins_fixed (idx + v_len v) vs in (v\<lparr>v_begin := idx\<rparr> # vs', i')))"

text \<open>
  Second pass: \<open>for\<close> each record variable, \<open>begin = index; index += len;
  recsize += len; last = var\<close>. The state is \<open>(index, recsize, last)\<close>
  (\<open>lst\<close> in the model).
\<close>

fun begins_rec :: "u64 \<Rightarrow> u64 \<Rightarrow> nc_var option \<Rightarrow> nc_var list \<Rightarrow>
                   nc_var list \<times> u64 \<times> u64 \<times> nc_var option" where
  "begins_rec idx rs lst [] = ([], idx, rs, lst)"
| "begins_rec idx rs lst (v # vs) =
     (if \<not> IS_RECVAR v then (let (vs', r) = begins_rec idx rs lst vs in (v # vs', r))
      else (let v' = v\<lparr>v_begin := idx\<rparr>;
                (vs', r) = begins_rec (idx + v_len v) (rs + v_len v) (Some v') vs
            in (v' # vs', r)))"

text \<open>
  \<open>NC_begins\<close>: nothing to do without variables; otherwise the two passes, then
  \<open>recsize\<close> becomes the first entry of the last record variable's \<open>dsizes\<close> when it
  equals that variable's \<open>len\<close>, and \<open>numrecs\<close> is reset. \<open>xlen\<close> is the header
  length \<open>NC_xlen_cdf(handle)\<close> the codec computes.
\<close>

definition NC_begins :: "u64 \<Rightarrow> nc \<Rightarrow> nc" where
  "NC_begins xlen h =
     (case vars h of
        None \<Rightarrow> h
      | Some vs \<Rightarrow>
          (let (vs1, idx) = begins_fixed xlen vs;
               (vs2, _, rs, lst) = begins_rec idx 0 None vs1;
               rs' = (case lst of
                        None \<Rightarrow> rs
                      | Some l \<Rightarrow> if rs = v_len l then hd (v_dsizes l) else rs)
           in h\<lparr>vars := Some vs2, begin_rec := idx, recsize := rs', numrecs := 0\<rparr>))"

section \<open>Reference layout\<close>

fun offsets :: "u64 \<Rightarrow> u64 list \<Rightarrow> u64 list" where
  "offsets b [] = []"
| "offsets b (l # ls) = b # offsets (b + l) ls"

abbreviation fixed_vars :: "nc_var list \<Rightarrow> nc_var list" where
  "fixed_vars vs \<equiv> filter (\<lambda>v. \<not> IS_RECVAR v) vs"

abbreviation rec_vars :: "nc_var list \<Rightarrow> nc_var list" where
  "rec_vars vs \<equiv> filter IS_RECVAR vs"

definition strip_begin :: "nc_var \<Rightarrow> nc_var" where
  "strip_begin v = v\<lparr>v_begin := 0\<rparr>"

lemma strip_begin_update [simp]: "strip_begin (v\<lparr>v_begin := b\<rparr>) = strip_begin v"
  by (simp add: strip_begin_def)

lemma length_offsets [simp]: "length (offsets b ls) = length ls"
  by (induction ls arbitrary: b) auto

lemma begins_fixed_facts:
  "map strip_begin (fst (begins_fixed idx vs)) = map strip_begin vs \<and>
   rec_vars (fst (begins_fixed idx vs)) = rec_vars vs \<and>
   map v_begin (fixed_vars (fst (begins_fixed idx vs))) =
     offsets idx (map v_len (fixed_vars vs)) \<and>
   snd (begins_fixed idx vs) = idx + sum_list (map v_len (fixed_vars vs))"
  by (induction idx vs rule: begins_fixed.induct) (auto simp add: Let_def split: prod.splits)

lemma begins_rec_facts:
  "map strip_begin (fst (begins_rec idx rs lst vs)) = map strip_begin vs \<and>
   fixed_vars (fst (begins_rec idx rs lst vs)) = fixed_vars vs \<and>
   map v_begin (rec_vars (fst (begins_rec idx rs lst vs))) =
     offsets idx (map v_len (rec_vars vs)) \<and>
   fst (snd (snd (begins_rec idx rs lst vs))) = rs + sum_list (map v_len (rec_vars vs)) \<and>
   map_option strip_begin (snd (snd (snd (begins_rec idx rs lst vs)))) =
     (if rec_vars vs = [] then map_option strip_begin lst
      else Some (strip_begin (last (rec_vars vs))))"
  by (induction idx rs lst vs rule: begins_rec.induct)
     (auto simp add: Let_def split: prod.splits)

lemma strip_begin_eq_fields:
  assumes "strip_begin a = strip_begin b"
  shows "v_len a = v_len b \<and> v_dsizes a = v_dsizes b \<and> v_shape a = v_shape b \<and> v_name a = v_name b"
proof -
  have "v_len (strip_begin a) = v_len (strip_begin b)" "v_dsizes (strip_begin a) = v_dsizes (strip_begin b)"
    "v_shape (strip_begin a) = v_shape (strip_begin b)" "v_name (strip_begin a) = v_name (strip_begin b)"
    using assms by simp_all
  then show ?thesis by (simp add: strip_begin_def)
qed

lemma NC_begins_None: "vars h = None \<Longrightarrow> NC_begins xlen h = h"
  by (simp add: NC_begins_def)

text \<open>The whole of \<open>NC_begins\<close> in closed form, on a handle with variables.\<close>

lemma NC_begins_eq:
  assumes "vars h = Some vs"
  obtains vs' where
    "NC_begins xlen h = h\<lparr>vars := Some vs',
        begin_rec := xlen + sum_list (map v_len (fixed_vars vs)),
        recsize := (let rs = sum_list (map v_len (rec_vars vs)) in
                    if rec_vars vs \<noteq> [] \<and> rs = v_len (last (rec_vars vs))
                    then hd (v_dsizes (last (rec_vars vs))) else rs),
        numrecs := 0\<rparr>"
    "map strip_begin vs' = map strip_begin vs"
    "map v_begin (fixed_vars vs') = offsets xlen (map v_len (fixed_vars vs))"
    "map v_begin (rec_vars vs') =
       offsets (xlen + sum_list (map v_len (fixed_vars vs))) (map v_len (rec_vars vs))"
proof -
  obtain vs1 idx where p1: "begins_fixed xlen vs = (vs1, idx)" by (cases "begins_fixed xlen vs")
  obtain vs2 i2 rs lst where p2: "begins_rec idx 0 None vs1 = (vs2, i2, rs, lst)"
    by (cases "begins_rec idx 0 None vs1") auto
  note f = begins_fixed_facts [of xlen vs, unfolded p1 fst_conv snd_conv]
  note r = begins_rec_facts [of idx 0 None vs1, unfolded p2 fst_conv snd_conv]
  have rv: "rec_vars vs1 = rec_vars vs" using f by simp
  have rs: "rs = sum_list (map v_len (rec_vars vs))" using r rv by simp
  have lst: "rs' = (let rs = sum_list (map v_len (rec_vars vs)) in
                    if rec_vars vs \<noteq> [] \<and> rs = v_len (last (rec_vars vs))
                    then hd (v_dsizes (last (rec_vars vs))) else rs)"
    if "rs' = (case lst of None \<Rightarrow> rs | Some l \<Rightarrow> if rs = v_len l then hd (v_dsizes l) else rs)"
    for rs'
  proof (cases "rec_vars vs = []")
    case True
    then show ?thesis using that r rv rs by simp
  next
    case False
    then obtain l where l: "lst = Some l" "strip_begin l = strip_begin (last (rec_vars vs))"
      using r rv by auto
    then show ?thesis using that rs False strip_begin_eq_fields [OF l(2)] by simp
  qed
  show ?thesis
  proof (rule that)
    show "NC_begins xlen h = h\<lparr>vars := Some vs2,
        begin_rec := xlen + sum_list (map v_len (fixed_vars vs)),
        recsize := (let rs = sum_list (map v_len (rec_vars vs)) in
                    if rec_vars vs \<noteq> [] \<and> rs = v_len (last (rec_vars vs))
                    then hd (v_dsizes (last (rec_vars vs))) else rs),
        numrecs := 0\<rparr>"
      using assms p1 p2 f lst [OF refl] by (simp add: NC_begins_def)
    show "map strip_begin vs2 = map strip_begin vs" using f r by simp
    show "map v_begin (fixed_vars vs2) = offsets xlen (map v_len (fixed_vars vs))" using f r by simp
    show "map v_begin (rec_vars vs2) =
       offsets (xlen + sum_list (map v_len (fixed_vars vs))) (map v_len (rec_vars vs))"
      using f r rv by simp
  qed
qed

section \<open>Layout without wrap-around\<close>

fun nat_offsets :: "nat \<Rightarrow> nat list \<Rightarrow> nat list" where
  "nat_offsets b [] = []"
| "nat_offsets b (l # ls) = b # nat_offsets (b + l) ls"

lemma offsets_unat:
  "unat b + sum_list (map unat ls) < 2 ^ 64 \<Longrightarrow>
   map unat (offsets b ls) = nat_offsets (unat b) (map unat ls)"
proof (induction ls arbitrary: b)
  case Nil
  then show ?case by simp
next
  case (Cons l ls)
  have "unat b + unat l < 2 ^ LENGTH(64)" using Cons.prems by simp
  then have add: "unat (b + l) = unat b + unat l" by (simp only: unat_add_lem)
  then have "unat (b + l) + sum_list (map unat ls) < 2 ^ 64" using Cons.prems by simp
  then show ?case using Cons.IH add by simp
qed

lemma nat_offsets_nth:
  "k < length ls \<Longrightarrow> nat_offsets b ls ! k = b + sum_list (take k ls)"
proof (induction ls arbitrary: b k)
  case Nil
  then show ?case by simp
next
  case (Cons l ls)
  then show ?case by (cases k) auto
qed

lemma sum_list_take_mono: "i \<le> j \<Longrightarrow> sum_list (take i (ls :: nat list)) \<le> sum_list (take j ls)"
proof -
  assume "i \<le> j"
  then have "take j ls = take i ls @ take (j - i) (drop i ls)"
    by (metis le_add_diff_inverse take_add)
  then show ?thesis by simp
qed

lemma nat_offsets_disjoint:
  assumes "i < j" "j < length ls"
  shows "nat_offsets b ls ! i + ls ! i \<le> nat_offsets b ls ! j"
proof -
  have "sum_list (take i ls) + ls ! i = sum_list (take (Suc i) ls)"
    using assms by (simp add: take_Suc_conv_app_nth)
  moreover have "sum_list (take (Suc i) ls) \<le> sum_list (take j ls)"
    using assms by (intro sum_list_take_mono) simp
  ultimately show ?thesis using assms by (simp add: nat_offsets_nth)
qed

lemma map_strip_begin_filter:
  assumes "map strip_begin a = map strip_begin b"
  shows "map strip_begin (fixed_vars a) = map strip_begin (fixed_vars b)"
    and "map strip_begin (rec_vars a) = map strip_begin (rec_vars b)"
proof -
  have IS: "IS_RECVAR \<circ> strip_begin = IS_RECVAR" by (rule ext) (simp add: strip_begin_def)
  have fr: "map strip_begin (rec_vars xs) = filter IS_RECVAR (map strip_begin xs)" for xs
    by (simp add: filter_map IS)
  have ff: "map strip_begin (fixed_vars xs) = filter (\<lambda>v. \<not> IS_RECVAR v) (map strip_begin xs)" for xs
  proof -
    have "(\<lambda>v. \<not> IS_RECVAR v) \<circ> strip_begin = (\<lambda>v. \<not> IS_RECVAR v)"
      by (rule ext) (simp add: strip_begin_def)
    then show ?thesis by (simp add: filter_map)
  qed
  show "map strip_begin (fixed_vars a) = map strip_begin (fixed_vars b)" using assms by (simp only: ff)
  show "map strip_begin (rec_vars a) = map strip_begin (rec_vars b)" using assms by (simp only: fr)
qed

lemma map_strip_begin_len:
  "map strip_begin a = map strip_begin b \<Longrightarrow> map v_len a = map v_len b"
proof -
  assume h: "map strip_begin a = map strip_begin b"
  have "map v_len a = map (v_len \<circ> strip_begin) a" by (simp add: strip_begin_def)
  also have "\<dots> = map (v_len \<circ> strip_begin) b" using h by (metis map_map)
  also have "\<dots> = map v_len b" by (simp add: strip_begin_def)
  finally show ?thesis .
qed

lemma NC_begins_xdrs [simp]: "xdrs (NC_begins xl h) = xdrs h" "path (NC_begins xl h) = path h"
  "flags (NC_begins xl h) = flags h" "redefid (NC_begins xl h) = redefid h"
  "file_type (NC_begins xl h) = file_type h"
  by (simp_all add: NC_begins_def Let_def split: option.splits prod.splits)

lemma strip_begin_same_update:
  "strip_begin x = strip_begin y \<Longrightarrow> x\<lparr>v_begin := c\<rparr> = y\<lparr>v_begin := c\<rparr>"
proof -
  assume "strip_begin x = strip_begin y"
  then have "(strip_begin x)\<lparr>v_begin := c\<rparr> = (strip_begin y)\<lparr>v_begin := c\<rparr>" by simp
  then show ?thesis by (simp add: strip_begin_def)
qed

lemma strip_begin_same_fields:
  "strip_begin x = strip_begin y \<Longrightarrow> IS_RECVAR x = IS_RECVAR y \<and> v_len x = v_len y"
  using strip_begin_eq_fields [of x y] by (simp add: IS_RECVAR_def)

lemma begins_fixed_strip:
  "map strip_begin a = map strip_begin b \<Longrightarrow>
   map strip_begin (fst (begins_fixed idx a)) = map strip_begin (fst (begins_fixed idx b)) \<and>
   fixed_vars (fst (begins_fixed idx a)) = fixed_vars (fst (begins_fixed idx b)) \<and>
   snd (begins_fixed idx a) = snd (begins_fixed idx b)"
proof (induction a arbitrary: b idx)
  case Nil
  then show ?case by simp
next
  case (Cons x a)
  then obtain y b' where b: "b = y # b'" "strip_begin x = strip_begin y" "map strip_begin a = map strip_begin b'"
    by (cases b) auto
  note F = strip_begin_same_fields [OF b(2)]
  show ?case
  proof (cases "IS_RECVAR x")
    case True
    then show ?thesis using Cons.IH [OF b(3), of idx] b F
      by (auto simp add: Let_def split: prod.splits)
  next
    case False
    then show ?thesis using Cons.IH [OF b(3), of "idx + v_len x"] b F strip_begin_same_update [OF b(2), of idx]
      by (auto simp add: Let_def split: prod.splits)
  qed
qed

lemma begins_rec_strip:
  "map strip_begin a = map strip_begin b \<Longrightarrow> fixed_vars a = fixed_vars b \<Longrightarrow>
   begins_rec idx rs lst a = begins_rec idx rs lst b"
proof (induction a arbitrary: b idx rs lst)
  case Nil
  then show ?case by simp
next
  case (Cons x a)
  then obtain y b' where b: "b = y # b'" "strip_begin x = strip_begin y" "map strip_begin a = map strip_begin b'"
    by (cases b) auto
  note F = strip_begin_same_fields [OF b(2)]
  show ?case
  proof (cases "IS_RECVAR x")
    case True
    then have "fixed_vars a = fixed_vars b'" using Cons.prems(2) b F by simp
    then show ?thesis using True Cons.IH [OF b(3)] b F strip_begin_same_update [OF b(2), of idx]
      by (simp add: Let_def)
  next
    case False
    then have "x = y" "fixed_vars a = fixed_vars b'" using Cons.prems(2) b F by simp_all
    then show ?thesis using False Cons.IH [OF b(3)] b by (simp add: Let_def)
  qed
qed

lemma NC_begins_vars_strip:
  assumes "map strip_begin a = map strip_begin b"
  shows "NC_begins xlen (h\<lparr>vars := Some a\<rparr>) = NC_begins xlen (h\<lparr>vars := Some b\<rparr>)"
proof -
  note F = begins_fixed_strip [OF assms, of xlen]
  have sa: "snd (begins_fixed xlen a) = snd (begins_fixed xlen b)" using F by simp
  have r: "begins_rec (snd (begins_fixed xlen b)) 0 None (fst (begins_fixed xlen a)) =
           begins_rec (snd (begins_fixed xlen b)) 0 None (fst (begins_fixed xlen b))"
    using begins_rec_strip [OF conjunct1 [OF F] conjunct1 [OF conjunct2 [OF F]]] .
  show ?thesis by (simp add: NC_begins_def split_beta sa r cong: option.case_cong if_cong)
qed

section \<open>Properties\<close>

definition sample_var :: "string \<Rightarrow> u64 list \<Rightarrow> u64 list \<Rightarrow> u64 \<Rightarrow> nc_var" where
  "sample_var n sh ds l = \<lparr>v_name = n, v_shape = sh, v_dsizes = ds, v_len = l, v_begin = 0\<rparr>"

definition sample_handle :: "nc_var list \<Rightarrow> nc" where
  "sample_handle vs = \<lparr>path = ''f.nc'', flags = NC_RDWR, xdrs = \<lparr>x_op = XDR_ENCODE, x_ino = 0, x_pos = 0\<rparr>,
     begin_rec = 0, recsize = 0, redefid = -1, numrecs = 7, vars = Some vs, file_type = netCDF_FILE\<rparr>"

text \<open>
  C25. The layout \<open>NC_begins\<close> computes: only the \<open>begin\<close> of the variables
  changes, in their declaration order; the fixed-size variables get the prefix offsets
  of their lengths from the header length on; the record region starts where they
  end, and the record variables get the prefix offsets of their lengths from there;
  the record count is reset to 0.
\<close>

theorem NC_begins_layout:
  assumes "vars h = Some vs"
  shows "\<exists>vs'. vars (NC_begins xlen h) = Some vs' \<and> map strip_begin vs' = map strip_begin vs \<and>
     map v_begin (fixed_vars vs') = offsets xlen (map v_len (fixed_vars vs)) \<and>
     begin_rec (NC_begins xlen h) = xlen + sum_list (map v_len (fixed_vars vs)) \<and>
     map v_begin (rec_vars vs') = offsets (begin_rec (NC_begins xlen h)) (map v_len (rec_vars vs)) \<and>
     numrecs (NC_begins xlen h) = 0 \<and>
     path (NC_begins xlen h) = path h \<and> flags (NC_begins xlen h) = flags h \<and>
     xdrs (NC_begins xlen h) = xdrs h"
proof -
  obtain vs' where e: "NC_begins xlen h = h\<lparr>vars := Some vs',
        begin_rec := xlen + sum_list (map v_len (fixed_vars vs)),
        recsize := (let rs = sum_list (map v_len (rec_vars vs)) in
                    if rec_vars vs \<noteq> [] \<and> rs = v_len (last (rec_vars vs))
                    then hd (v_dsizes (last (rec_vars vs))) else rs),
        numrecs := 0\<rparr>"
    and "map strip_begin vs' = map strip_begin vs"
    and "map v_begin (fixed_vars vs') = offsets xlen (map v_len (fixed_vars vs))"
    and "map v_begin (rec_vars vs') =
       offsets (xlen + sum_list (map v_len (fixed_vars vs))) (map v_len (rec_vars vs))"
    using NC_begins_eq [OF assms] by blast
  then show ?thesis by simp
qed

lemma NC_begins_layout_witness:
  "map v_begin (the (vars (NC_begins 100 (sample_handle
      [sample_var ''a'' [3] [12] 12, sample_var ''r'' [0, 2] [8, 4] 8, sample_var ''b'' [] [] 4])))) =
     [100, 116, 112] \<and>
   begin_rec (NC_begins 100 (sample_handle
      [sample_var ''a'' [3] [12] 12, sample_var ''r'' [0, 2] [8, 4] 8, sample_var ''b'' [] [] 4])) = 116"
proof -
  let ?vs = "[sample_var ''a'' [3] [12] 12, sample_var ''r'' [0, 2] [8, 4] 8, sample_var ''b'' [] [] 4]"
  have "vars (sample_handle ?vs) = Some ?vs" by (simp add: sample_handle_def)
  from NC_begins_layout [OF this, of 100] obtain vs' where
    v: "vars (NC_begins 100 (sample_handle ?vs)) = Some vs'" and
    s: "map strip_begin vs' = map strip_begin ?vs" and
    f: "map v_begin (fixed_vars vs') = offsets 100 (map v_len (fixed_vars ?vs))" and
    b: "begin_rec (NC_begins 100 (sample_handle ?vs)) = 100 + sum_list (map v_len (fixed_vars ?vs))" and
    r: "map v_begin (rec_vars vs') =
          offsets (begin_rec (NC_begins 100 (sample_handle ?vs))) (map v_len (rec_vars ?vs))"
    by blast
  have rec: "IS_RECVAR (sample_var ''r'' [0, 2] [8, 4] 8)" "\<not> IS_RECVAR (sample_var ''a'' [3] [12] 12)"
    "\<not> IS_RECVAR (sample_var ''b'' [] [] 4)"
    by (simp_all add: IS_RECVAR_def sample_var_def)
  have "length vs' = 3" using s by (metis length_map length_Cons list.size(3) numeral_3_eq_3)
  then obtain x y z where xyz: "vs' = [x, y, z]"
    by (cases vs'; cases "tl vs'"; cases "tl (tl vs')") (auto simp add: numeral_3_eq_3)
  have IS: "IS_RECVAR v = IS_RECVAR (strip_begin v)" for v by (simp add: strip_begin_def)
  have "\<not> IS_RECVAR x" "IS_RECVAR y" "\<not> IS_RECVAR z"
    using s rec xyz IS [of x] IS [of y] IS [of z] IS [of "sample_var ''a'' [3] [12] 12"]
      IS [of "sample_var ''r'' [0, 2] [8, 4] 8"] IS [of "sample_var ''b'' [] [] 4"] by auto
  then show ?thesis using v f r b xyz rec by (simp add: sample_var_def)
qed

text \<open>
  C26. Record size: the sum of the record variables' lengths, except that when this
  sum equals the last record variable's own length, it is that variable's first
  \<open>dsizes\<close> entry; in particular a lone record variable is packed at its unpadded
  per-record size (specification, section 8).
\<close>

theorem NC_begins_recsize:
  assumes "vars h = Some vs"
  shows "recsize (NC_begins xlen h) =
           (let rs = sum_list (map v_len (rec_vars vs)) in
            if rec_vars vs \<noteq> [] \<and> rs = v_len (last (rec_vars vs))
            then hd (v_dsizes (last (rec_vars vs))) else rs) \<and>
         (\<forall>r. rec_vars vs = [r] \<longrightarrow> recsize (NC_begins xlen h) = hd (v_dsizes r))"
proof -
  obtain vs' where e: "NC_begins xlen h = h\<lparr>vars := Some vs',
        begin_rec := xlen + sum_list (map v_len (fixed_vars vs)),
        recsize := (let rs = sum_list (map v_len (rec_vars vs)) in
                    if rec_vars vs \<noteq> [] \<and> rs = v_len (last (rec_vars vs))
                    then hd (v_dsizes (last (rec_vars vs))) else rs),
        numrecs := 0\<rparr>"
    using NC_begins_eq [OF assms] by blast
  then show ?thesis by (auto simp add: Let_def)
qed

lemma NC_begins_recsize_witness:
  "recsize (NC_begins 100 (sample_handle [sample_var ''a'' [3] [12] 12, sample_var ''r'' [0, 2] [6, 3] 8])) = 6 \<and>
   recsize (NC_begins 100 (sample_handle [sample_var ''p'' [0] [0] 0, sample_var ''r'' [0, 2] [6, 3] 8])) = 6"
proof -
  let ?h1 = "sample_handle [sample_var ''a'' [3] [12] 12, sample_var ''r'' [0, 2] [6, 3] 8]"
  let ?h2 = "sample_handle [sample_var ''p'' [0] [0] 0, sample_var ''r'' [0, 2] [6, 3] 8]"
  have v1: "vars ?h1 = Some [sample_var ''a'' [3] [12] 12, sample_var ''r'' [0, 2] [6, 3] 8]"
    and v2: "vars ?h2 = Some [sample_var ''p'' [0] [0] 0, sample_var ''r'' [0, 2] [6, 3] 8]"
    by (simp_all add: sample_handle_def)
  show ?thesis
    using NC_begins_recsize [OF v1, of 100] NC_begins_recsize [OF v2, of 100]
    by (simp add: IS_RECVAR_def sample_var_def)
qed

text \<open>
  C27. Without wrap-around the fixed-size variables are laid out contiguously after
  the header and never overlap: if the header length and the lengths of the
  fixed-size variables sum to less than \<open>2^64\<close>, each such variable starts at or
  after the header, ends at or before the start of every later one, and the record
  region starts after the last of them.
\<close>

theorem NC_begins_no_overlap:
  assumes "vars h = Some vs" "vars (NC_begins xlen h) = Some vs'"
    and fits: "unat xlen + sum_list (map unat (map v_len (fixed_vars vs))) < 2 ^ 64"
    and ij: "i < j" "j < length (fixed_vars vs)"
  shows "unat xlen \<le> unat (v_begin (fixed_vars vs' ! i)) \<and>
         unat (v_begin (fixed_vars vs' ! i)) + unat (v_len (fixed_vars vs' ! i))
           \<le> unat (v_begin (fixed_vars vs' ! j)) \<and>
         unat (v_begin (fixed_vars vs' ! j)) + unat (v_len (fixed_vars vs' ! j))
           \<le> unat (begin_rec (NC_begins xlen h))"
proof -
  let ?ls = "map v_len (fixed_vars vs)"
  obtain vs2 where e: "NC_begins xlen h = h\<lparr>vars := Some vs2,
        begin_rec := xlen + sum_list ?ls,
        recsize := (let rs = sum_list (map v_len (rec_vars vs)) in
                    if rec_vars vs \<noteq> [] \<and> rs = v_len (last (rec_vars vs))
                    then hd (v_dsizes (last (rec_vars vs))) else rs),
        numrecs := 0\<rparr>"
    and st: "map strip_begin vs2 = map strip_begin vs"
    and fb: "map v_begin (fixed_vars vs2) = offsets xlen ?ls"
    using NC_begins_eq [OF assms(1)] by blast
  have vs2: "vs2 = vs'" using e assms(2) by simp
  have lens: "map v_len (fixed_vars vs') = ?ls"
    using map_strip_begin_len [OF map_strip_begin_filter(1) [OF st]] vs2 by simp
  have len: "length (fixed_vars vs') = length (fixed_vars vs)" using lens by (metis length_map)
  have nat: "map unat (offsets xlen ?ls) = nat_offsets (unat xlen) (map unat ?ls)"
    using fits by (rule offsets_unat)
  let ?no = "nat_offsets (unat xlen) (map unat ?ls)"
  have beg: "unat (v_begin (fixed_vars vs' ! k)) = ?no ! k" if "k < length (fixed_vars vs)" for k
  proof -
    have mb: "map unat (map v_begin (fixed_vars vs')) = ?no" using fb vs2 nat by (simp del: map_map)
    have "k < length (fixed_vars vs')" using that len by simp
    then show ?thesis using mb by (metis length_map nth_map)
  qed
  have ln: "unat (v_len (fixed_vars vs' ! k)) = map unat ?ls ! k" if "k < length (fixed_vars vs)" for k
    using that lens len by (metis length_map nth_map)
  have i: "i < length (fixed_vars vs)" using ij by simp
  have step: "?no ! k + map unat ?ls ! k = unat xlen + sum_list (take (Suc k) (map unat ?ls))"
    if "k < length (fixed_vars vs)" for k
    using that by (simp add: nat_offsets_nth take_Suc_conv_app_nth)
  have sum_le: "sum_list (take (Suc j) (map unat ?ls)) \<le> sum_list (map unat ?ls)"
    by (metis sum_list_take_mono take_all nle_le length_map take_all_iff)
  have br: "unat (begin_rec (NC_begins xlen h)) = unat xlen + sum_list (map unat ?ls)"
  proof -
    have "unat (sum_list ?ls) = sum_list (map unat ?ls)"
      using fits by (intro unat_sum_list) simp
    then have "sum_list (map unat ?ls) = unat (sum_list ?ls)" ..
    then show ?thesis using e fits
      by (simp add: unat_add_lem [THEN iffD1] del: map_map)
  qed
  show ?thesis
  proof (intro conjI)
    show "unat xlen \<le> unat (v_begin (fixed_vars vs' ! i))"
      using beg [OF i] i by (simp add: nat_offsets_nth)
    show "unat (v_begin (fixed_vars vs' ! i)) + unat (v_len (fixed_vars vs' ! i))
           \<le> unat (v_begin (fixed_vars vs' ! j))"
      using beg [OF i] beg [OF ij(2)] ln [OF i] nat_offsets_disjoint [of i j "map unat ?ls"] ij
      by simp
    show "unat (v_begin (fixed_vars vs' ! j)) + unat (v_len (fixed_vars vs' ! j))
           \<le> unat (begin_rec (NC_begins xlen h))"
      using beg [OF ij(2)] ln [OF ij(2)] step [OF ij(2)] sum_le br by simp
  qed
qed

lemma NC_begins_no_overlap_witness:
  "unat (v_begin (fixed_vars (the (vars (NC_begins 100 (sample_handle
      [sample_var ''a'' [3] [12] 12, sample_var ''r'' [0, 2] [8, 4] 8, sample_var ''b'' [] [] 4])))) ! 0))
   + 12 \<le> unat (v_begin (fixed_vars (the (vars (NC_begins 100 (sample_handle
      [sample_var ''a'' [3] [12] 12, sample_var ''r'' [0, 2] [8, 4] 8, sample_var ''b'' [] [] 4])))) ! 1))"
proof -
  let ?vs = "[sample_var ''a'' [3] [12] 12, sample_var ''r'' [0, 2] [8, 4] 8, sample_var ''b'' [] [] 4]"
  let ?vs' = "[(sample_var ''a'' [3] [12] 12)\<lparr>v_begin := 100\<rparr>,
               (sample_var ''r'' [0, 2] [8, 4] 8)\<lparr>v_begin := 116\<rparr>,
               (sample_var ''b'' [] [] 4)\<lparr>v_begin := 112\<rparr>]"
  have v: "vars (sample_handle ?vs) = Some ?vs" by (simp add: sample_handle_def)
  have v': "vars (NC_begins 100 (sample_handle ?vs)) = Some ?vs'"
    by (simp add: NC_begins_def sample_handle_def sample_var_def IS_RECVAR_def Let_def)
  have f: "unat (100::u64) + sum_list (map unat (map v_len (fixed_vars ?vs))) < 2 ^ 64"
    by (simp add: sample_var_def IS_RECVAR_def)
  have l: "(1::nat) < length (fixed_vars ?vs)"
    by (simp add: sample_var_def IS_RECVAR_def)
  have "unat (v_begin (fixed_vars ?vs' ! 0)) + unat (v_len (fixed_vars ?vs' ! 0))
          \<le> unat (v_begin (fixed_vars ?vs' ! 1))"
    using NC_begins_no_overlap [OF v v' f _ l, of 0] by simp
  then show ?thesis using v' by (simp add: sample_var_def IS_RECVAR_def)
qed

text \<open>
  C28. The planner does not check for overflow: whenever the header length plus the
  length of the first fixed-size variable reaches \<open>2^64\<close>, the second fixed-size
  variable is placed at their sum less \<open>2^64\<close>, an offset inside the header.
\<close>

theorem NC_begins_wraps_into_header:
  assumes v: "vars h = Some vs" and f: "fixed_vars vs = a # b # rest"
    and ov: "2 ^ 64 \<le> unat xlen + unat (v_len a)"
  shows "unat (v_begin (fixed_vars (the (vars (NC_begins xlen h))) ! 1)) = unat xlen + unat (v_len a) - 2 ^ 64 \<and>
         unat (v_begin (fixed_vars (the (vars (NC_begins xlen h))) ! 1)) < unat xlen"
proof -
  obtain vs' where e0: "NC_begins xlen h = h\<lparr>vars := Some vs',
        begin_rec := xlen + sum_list (map v_len (fixed_vars vs)),
        recsize := (let rs = sum_list (map v_len (rec_vars vs)) in
                    if rec_vars vs \<noteq> [] \<and> rs = v_len (last (rec_vars vs))
                    then hd (v_dsizes (last (rec_vars vs))) else rs),
        numrecs := 0\<rparr>"
    and "map strip_begin vs' = map strip_begin vs"
    and o: "map v_begin (fixed_vars vs') = offsets xlen (map v_len (fixed_vars vs))"
    and "map v_begin (rec_vars vs') =
       offsets (xlen + sum_list (map v_len (fixed_vars vs))) (map v_len (rec_vars vs))"
    using NC_begins_eq [OF v] by blast
  have e: "vars (NC_begins xlen h) = Some vs'" using e0 by simp
  have o1: "map v_begin (fixed_vars vs') = xlen # offsets (xlen + v_len a) (map v_len (b # rest))"
    using o f by (simp only: list.map offsets.simps)
  then have "fixed_vars vs' \<noteq> [] \<and> tl (fixed_vars vs') \<noteq> []" by (cases "fixed_vars vs'") auto
  then obtain c d ws where c: "fixed_vars vs' = c # d # ws" by (metis list.exhaust_sel)
  have b: "v_begin (fixed_vars vs' ! 1) = xlen + v_len a" using o1 c by simp
  have lt: "unat (v_len a) < 2 ^ 64" by (rule unat_u64_lt)
  show ?thesis using e b unat_add_wrap [OF ov] lt ov by simp
qed

theorem NC_begins_wraps_into_header_witness:
  "unat (v_begin (fixed_vars (the (vars (NC_begins 16 (sample_handle
      [sample_var ''a'' [2] [0xFFFFFFFFFFFFFFF8] 0xFFFFFFFFFFFFFFF8, sample_var ''b'' [] [] 4])))) ! 1)) =
     unat (16 :: u64) + unat (0xFFFFFFFFFFFFFFF8 :: u64) - 2 ^ 64 \<and>
   unat (v_begin (fixed_vars (the (vars (NC_begins 16 (sample_handle
      [sample_var ''a'' [2] [0xFFFFFFFFFFFFFFF8] 0xFFFFFFFFFFFFFFF8, sample_var ''b'' [] [] 4])))) ! 1)) <
     unat (16 :: u64)"
proof -
  have ov: "2 ^ 64 \<le> unat (16 :: u64) + unat (v_len (sample_var ''a'' [2] [0xFFFFFFFFFFFFFFF8] 0xFFFFFFFFFFFFFFF8))"
    by (simp add: sample_var_def)
  show ?thesis
    using NC_begins_wraps_into_header [of "sample_handle [sample_var ''a'' [2] [0xFFFFFFFFFFFFFFF8] 0xFFFFFFFFFFFFFFF8, sample_var ''b'' [] [] 4]"
      "[sample_var ''a'' [2] [0xFFFFFFFFFFFFFFF8] 0xFFFFFFFFFFFFFFF8, sample_var ''b'' [] [] 4]"
      "sample_var ''a'' [2] [0xFFFFFFFFFFFFFFF8] 0xFFFFFFFFFFFFFFF8" "sample_var ''b'' [] [] 4" "[]" 16, OF _ _ ov]
    by (simp add: sample_handle_def IS_RECVAR_def sample_var_def)
qed


text \<open>
  C30. The layout is a function of the schema alone: planning a handle that has already
  been planned changes nothing, so computing the layout twice on an unmodified
  variable set yields identical offsets, record size and record region
  (specification, section 8).
\<close>

theorem NC_begins_idem: "NC_begins xlen (NC_begins xlen h) = NC_begins xlen h"
proof (cases "vars h")
  case None
  then show ?thesis by (simp add: NC_begins_None)
next
  case (Some vs)
  obtain vs' where e: "NC_begins xlen h = h\<lparr>vars := Some vs',
        begin_rec := xlen + sum_list (map v_len (fixed_vars vs)),
        recsize := (let rs = sum_list (map v_len (rec_vars vs)) in
                    if rec_vars vs \<noteq> [] \<and> rs = v_len (last (rec_vars vs))
                    then hd (v_dsizes (last (rec_vars vs))) else rs),
        numrecs := 0\<rparr>"
    and s: "map strip_begin vs' = map strip_begin vs"
    using NC_begins_eq [OF Some] by blast
  have "NC_begins xlen (NC_begins xlen h) = NC_begins xlen (h\<lparr>vars := Some vs'\<rparr>)"
    unfolding e by (simp add: NC_begins_def split_beta)
  also have "\<dots> = NC_begins xlen (h\<lparr>vars := Some vs\<rparr>)" by (rule NC_begins_vars_strip [OF s])
  also have "\<dots> = NC_begins xlen h" using Some by (simp add: NC_begins_def)
  finally show ?thesis .
qed

end
