(* ===== verification/Session.thy ===== *)
theory Session
  imports Open_Table Codec Layout
begin

unbundle bit_operations_syntax

text \<open>
  The session layer of \<open>mfhdf/src/file.c\<close>: the whole process state the file
  manipulates, the handle constructors it calls, and the operations that open, create,
  sync and change the fill mode of a file. Handles live in a heap of pointers, as the
  \<open>NC *\<close> of the C code do; the table holds pointers, so that the model can say
  when a slot still points at a freed handle. Every operation returns the C result
  (\<open>Inr\<close> of the returned value, \<open>Inl\<close> of the error it reports) and the state
  it leaves, also on failure.
\<close>

record nc_state =
  tbl :: "ptr cdf_table"
  heap :: "ptr \<rightharpoonup> nc"
  next_ptr :: ptr
  sys :: os_state
  ncopts :: u32
  tn_seed :: string

type_synonym 'a result = "(nc_err + 'a) \<times> nc_state"

section \<open>Handle constructors (library code outside file.c)\<close>

text \<open>
  \<open>NC_computeshapes\<close> (after a header is decoded): the record region starts at the
  first record variable and \<open>recsize\<close> is the sum of the record variables' lengths,
  or the unpadded size of a lone record variable (specification, section 4.2).
\<close>

definition NC_computeshapes :: "nc \<Rightarrow> nc" where
  "NC_computeshapes h =
     (case vars h of
        None \<Rightarrow> h
      | Some vs \<Rightarrow>
          (let rv = filter IS_RECVAR vs in
           h\<lparr>begin_rec := (case rv of [] \<Rightarrow> 0 | r # _ \<Rightarrow> v_begin r),
             recsize := (case rv of [r] \<Rightarrow> hd (v_dsizes r) | _ \<Rightarrow> sum_list (map v_len rv))\<rparr>))"

text \<open>
  \<open>NC_new_cdf\<close>: open the stream with \<open>NCxdrfile_create\<close>; a create starts an
  empty schema of the codec's default file kind with \<open>flags = mode\<close>; an open decodes
  the header and closes the file again if it cannot. The error side carries the
  \<open>errno\<close> of a failed \<open>open(2)\<close>.
\<close>

definition NC_new_cdf :: "codec \<Rightarrow> os_state \<Rightarrow> string \<Rightarrow> u32 \<Rightarrow>
                          (errno option \<times> os_state) + (os_state \<times> nc)" where
  "NC_new_cdf cg os name mode =
     (case NCxdrfile_create os name mode of
        Inl (Inl _) \<Rightarrow> Inl (None, os)
      | Inl (Inr e) \<Rightarrow> Inl (Some e, os)
      | Inr (os1, x) \<Rightarrow>
          (let h0 = \<lparr>path = name, flags = mode, xdrs = x, begin_rec = 0, recsize = 0, redefid = -1,
                     numrecs = 0, vars = None, file_type = c_create_kind cg\<rparr> in
           if flag_set mode NC_CREAT then Inr (os1, h0)
           else
             (case files os1 (x_ino x) of
                None \<Rightarrow> Inl (None, posix_close os1)
              | Some d \<Rightarrow>
                  (case (c_kind cg d, c_decode cg d) of
                     (Some k, Some (vs, nr)) \<Rightarrow>
                       Inr (os1, NC_computeshapes (h0\<lparr>vars := vs, numrecs := nr, file_type := k\<rparr>))
                   | _ \<Rightarrow> Inl (None, posix_close os1)))))"

text \<open>
  \<open>NC_dup_cdf\<close>: a new handle on a new file with the schema of \<open>old\<close>, in define
  mode, with no records and no partner.
\<close>

definition NC_dup_cdf :: "os_state \<Rightarrow> string \<Rightarrow> u32 \<Rightarrow> nc \<Rightarrow>
                          (errno option \<times> os_state) + (os_state \<times> nc)" where
  "NC_dup_cdf os name mode old =
     (case NCxdrfile_create os name mode of
        Inl (Inl _) \<Rightarrow> Inl (None, os)
      | Inl (Inr e) \<Rightarrow> Inl (Some e, os)
      | Inr (os1, x) \<Rightarrow>
          Inr (os1, \<lparr>path = name, flags = flags old OR NC_INDEF, xdrs = x, begin_rec = 0,
                     recsize = 0, redefid = -1, numrecs = 0, vars = vars old,
                     file_type = file_type old\<rparr>))"

text \<open>
  \<open>NC_free_cdf\<close>: close the handle's stream and free it; \<open>NULL\<close> is ignored, and
  freeing a pointer that is not allocated is undefined.
\<close>

definition NC_free_cdf :: "nc_state \<Rightarrow> ptr option \<Rightarrow> nc_err + nc_state" where
  "NC_free_cdf s p =
     (case p of
        None \<Rightarrow> Inr s
      | Some q \<Rightarrow>
          (case heap s q of
             None \<Rightarrow> Inl NC_UB
           | Some _ \<Rightarrow> Inr (s\<lparr>heap := (heap s)(q := None), sys := posix_close (sys s)\<rparr>)))"

section \<open>Handle access\<close>

text \<open>\<open>NC_check_id\<close> followed by the dereference of the pointer it returns.\<close>

definition nc_check :: "nc_state \<Rightarrow> int \<Rightarrow> nc_err + (ptr \<times> nc)" where
  "nc_check s cdfid =
     (case NC_check_id (tbl s) cdfid of
        Inl e \<Rightarrow> Inl e
      | Inr p \<Rightarrow> (case heap s p of None \<Rightarrow> Inl NC_UB | Some h \<Rightarrow> Inr (p, h)))"

definition put_h :: "nc_state \<Rightarrow> ptr \<Rightarrow> nc \<Rightarrow> nc_state" where
  "put_h s p h = s\<lparr>heap := (heap s)(p \<mapsto> h)\<rparr>"

text \<open>
  \<open>NC_indefine\<close>: the flag test on the slot, without the \<open>NULL\<close> check
  \<open>NC_check_id\<close> makes (\<open>None\<close>: the slot is empty or dangling).
\<close>

definition NC_indefine :: "nc_state \<Rightarrow> int \<Rightarrow> bool option" where
  "NC_indefine s cdfid =
     (if 0 \<le> cdfid \<and> cdfid < ncdf (tbl s)
      then (case HNDLE (tbl s) cdfid of
              None \<Rightarrow> None
            | Some p \<Rightarrow> map_option (\<lambda>h. flag_set (flags h) NC_INDEF) (heap s p))
      else Some False)"

section \<open>Flushing a dirty header\<close>

text \<open>
  The flush of \<open>ncsync\<close> (repeated in \<open>ncsetfill\<close>): a dirty header is rewritten
  and both dirty bits cleared; otherwise a dirty record count is rewritten and its bit
  cleared, except on HDF files.
\<close>

definition sync_dirty :: "codec \<Rightarrow> os_state \<Rightarrow> nc \<Rightarrow> (os_state \<times> nc) option" where
  "sync_dirty cg os h =
     (if flag_set (flags h) NC_HDIRTY then
        map_option (\<lambda>(os', h'). (os', h'\<lparr>flags := flags h' AND NOT (NC_NDIRTY OR NC_HDIRTY)\<rparr>))
          (xdr_cdf_encode cg os h)
      else if flag_set (flags h) NC_NDIRTY then
        map_option (\<lambda>(os', h'). (os', if file_type h' \<noteq> HDF_FILE
                                      then h'\<lparr>flags := flags h' AND NOT NC_NDIRTY\<rparr> else h'))
          (xdr_numrecs cg os h)
      else Some (os, h))"

text \<open>The flush of \<open>ncclose\<close> (repeated in \<open>ncabort\<close>): the same writes, no bit cleared.\<close>

definition flush_dirty :: "codec \<Rightarrow> os_state \<Rightarrow> nc \<Rightarrow> (os_state \<times> nc) option" where
  "flush_dirty cg os h =
     (if flag_set (flags h) NC_HDIRTY then xdr_cdf_encode cg os h
      else if flag_set (flags h) NC_NDIRTY then xdr_numrecs cg os h
      else Some (os, h))"

definition set_xop :: "xdr_op \<Rightarrow> nc \<Rightarrow> nc" where
  "set_xop op h = h\<lparr>xdrs := (xdrs h)\<lparr>x_op := op\<rparr>\<rparr>"

section \<open>Opening and creating\<close>

text \<open>
  \<open>NC_open\<close>: allocate the table if it is \<open>NULL\<close>; find the first free identifier;
  when there is none and the capacity is reached, grow the table once to the system
  limit, failing if it is already there; create the handle; on failure remove a file
  created with \<open>NC_CLOBBER\<close> unless the HDF layer has it open; otherwise install the
  handle with its path truncated to \<open>FILENAME_MAX\<close>.
\<close>

definition NC_open :: "codec \<Rightarrow> nc_state \<Rightarrow> string \<Rightarrow> u32 \<Rightarrow> int result" where
  "NC_open cg s name mode =
     (let os = sys s in
      case nc_alloc_table (oom os) (rlim_cur os) (tbl s) of
        None \<Rightarrow> (Inl NC_ENFILE, s)
      | Some t1 \<Rightarrow>
          (let cdfid = first_free_id t1 in
           case nc_grow_table (oom os) (rlim_cur os) cdfid t1 of
             None \<Rightarrow> (Inl NC_ENFILE, s\<lparr>tbl := t1\<rparr>)
           | Some t2 \<Rightarrow>
               (case NC_new_cdf cg os name mode of
                  Inl (err, os') \<Rightarrow>
                    (if err = Some EMFILE then (Inl NC_SYSERR, s\<lparr>tbl := t2, sys := os'\<rparr>)
                     else if (mode AND 0x0f) = NC_CLOBBER \<and> name \<notin> in_use os'
                     then (Inl NC_SYSERR, s\<lparr>tbl := t2,
                             sys := (case posix_remove os' name of Inl _ \<Rightarrow> os' | Inr os'' \<Rightarrow> os'')\<rparr>)
                     else (Inl NC_SYSERR, s\<lparr>tbl := t2, sys := os'\<rparr>))
                | Inr (os', h) \<Rightarrow>
                    (if \<not> slot_in_array t2 cdfid then (Inl NC_UB, s\<lparr>tbl := t2, sys := os'\<rparr>)
                     else
                       (Inr cdfid,
                        s\<lparr>tbl := install_slot cdfid (next_ptr s) t2,
                          heap := (heap s)(next_ptr s \<mapsto> h\<lparr>path := take FILENAME_MAX name\<rparr>),
                          next_ptr := Suc (next_ptr s), sys := os'\<rparr>)))))"

definition nccreate :: "codec \<Rightarrow> nc_state \<Rightarrow> string \<Rightarrow> u32 \<Rightarrow> int result" where
  "nccreate cg s name cmode =
     (if flag_set cmode NC_CREAT then NC_open cg s name cmode else (Inl NC_EINVAL, s))"

definition ncopen :: "codec \<Rightarrow> nc_state \<Rightarrow> string \<Rightarrow> u32 \<Rightarrow> int result" where
  "ncopen cg s name mode =
     (if flag_set mode NC_CREAT then (Inl NC_EINVAL, s) else NC_open cg s name mode)"

section \<open>Sync, fill mode, nobuf\<close>

text \<open>
  \<open>ncsync\<close>: refused in define mode; a writable file flushes its dirty header or
  record count; a read-only file rereads its header, and if that fails the handle is
  freed while its slot still points at it.
\<close>

definition ncsync :: "codec \<Rightarrow> nc_state \<Rightarrow> int \<Rightarrow> int result" where
  "ncsync cg s cdfid =
     (case nc_check s cdfid of
        Inl e \<Rightarrow> (Inl e, s)
      | Inr (p, h) \<Rightarrow>
          if flag_set (flags h) NC_INDEF then (Inl NC_EINDEFINE, s)
          else if flag_set (flags h) NC_RDWR then
            (let h1 = set_xop XDR_ENCODE h in
             case sync_dirty cg (sys s) h1 of
               None \<Rightarrow> (Inl NC_EXDR, put_h s p h1)
             | Some (os', h2) \<Rightarrow> (Inr 0, (put_h s p h2)\<lparr>sys := os'\<rparr>))
          else
            (let h1 = set_xop XDR_DECODE h in
             case xdr_cdf_decode cg (sys s) h1 of
               None \<Rightarrow> (case NC_free_cdf s (Some p) of
                          Inl e \<Rightarrow> (Inl e, s)
                        | Inr s' \<Rightarrow> (Inl NC_SYSERR, s'))
             | Some h2 \<Rightarrow> (Inr 0, put_h s p (NC_computeshapes h2))))"

text \<open>
  \<open>ncsetfill\<close>: only on writable files; returns the previous mode; turning fill back
  on flushes as \<open>ncsync\<close> does, then clears \<open>NC_NOFILL\<close> and restores the stream's
  direction.
\<close>

definition ncsetfill :: "codec \<Rightarrow> nc_state \<Rightarrow> int \<Rightarrow> u32 \<Rightarrow> int result" where
  "ncsetfill cg s cdfid fillmode =
     (case nc_check s cdfid of
        Inl e \<Rightarrow> (Inl e, s)
      | Inr (p, h) \<Rightarrow>
          if \<not> flag_set (flags h) NC_RDWR then (Inl NC_EPERM, s)
          else
            (let ret = (if flag_set (flags h) NC_NOFILL then NC_NOFILL else NC_FILL) in
             if fillmode = NC_NOFILL then (Inr (uint ret), put_h s p (h\<lparr>flags := flags h OR NC_NOFILL\<rparr>))
             else if fillmode = NC_FILL then
               (if flag_set (flags h) NC_NOFILL then
                  (let op = x_op (xdrs h); h1 = set_xop XDR_ENCODE h in
                   case sync_dirty cg (sys s) h1 of
                     None \<Rightarrow> (Inl NC_EXDR, put_h s p h1)
                   | Some (os', h2) \<Rightarrow>
                       (Inr (uint ret),
                        (put_h s p (set_xop op (h2\<lparr>flags := flags h2 AND NOT NC_NOFILL\<rparr>)))\<lparr>sys := os'\<rparr>))
                else (Inr (uint ret), s))
             else (Inl NC_EINVAL, s)))"

definition ncnobuf :: "nc_state \<Rightarrow> int \<Rightarrow> int result" where
  "ncnobuf s cdfid = (case nc_check s cdfid of Inl e \<Rightarrow> (Inl e, s) | Inr _ \<Rightarrow> (Inr 0, s))"

section \<open>Session invariant\<close>

text \<open>
  \<open>sess_inv\<close>: the table keeps its invariant; every live slot points at an
  allocated handle, and no two live slots share one; every allocated handle is in a
  live slot and was allocated before \<open>next_ptr\<close>; the open descriptors the model
  accounts for are exactly those of the allocated handles; each handle's stream names
  an existing inode.
\<close>

definition sess_inv :: "nc_state \<Rightarrow> bool" where
  "sess_inv s \<longleftrightarrow>
     tbl_inv (tbl s) \<and>
     (\<forall>i p. HNDLE (tbl s) i = Some p \<longrightarrow> heap s p \<noteq> None) \<and>
     (\<forall>i j p. HNDLE (tbl s) i = Some p \<longrightarrow> HNDLE (tbl s) j = Some p \<longrightarrow> i = j) \<and>
     (\<forall>p. heap s p \<noteq> None \<longrightarrow> p < next_ptr s \<and> (\<exists>i. HNDLE (tbl s) i = Some p)) \<and>
     open_fds (sys s) = card (dom (heap s)) \<and>
     os_ok (sys s) \<and> (\<forall>p h. heap s p = Some h \<longrightarrow> x_ino (xdrs h) \<in> dom (files (sys s)))"

section \<open>Lemmas\<close>

lemma NC_computeshapes_fields [simp]:
  "path (NC_computeshapes h) = path h" "xdrs (NC_computeshapes h) = xdrs h"
  "flags (NC_computeshapes h) = flags h" "redefid (NC_computeshapes h) = redefid h"
  "file_type (NC_computeshapes h) = file_type h"
  by (simp_all add: NC_computeshapes_def Let_def split: option.splits)

lemma os_ok_close [simp]: "os_ok (posix_close os) = os_ok os"
  by (simp add: posix_close_def)

lemma NC_new_cdf_Inl_cases:
  "NC_new_cdf cg os name mode = Inl (e, os') \<Longrightarrow>
   os' = os \<or> (\<exists>os1 x. NCxdrfile_create os name mode = Inr (os1, x) \<and> os' = posix_close os1)"
  by (auto simp add: NC_new_cdf_def Let_def split: sum.splits prod.splits if_splits option.splits)

lemma NC_new_cdf_Inr_cases:
  "NC_new_cdf cg os name mode = Inr (os', h) \<Longrightarrow>
   NCxdrfile_create os name mode = Inr (os', xdrs h) \<and> path h = name"
  by (auto simp add: NC_new_cdf_def Let_def split: sum.splits prod.splits if_splits option.splits)

lemma NC_new_cdf_Inl:
  assumes "NC_new_cdf cg os name mode = Inl (e, os')" "os_ok os"
  shows "os_ok os' \<and> open_fds os' = open_fds os \<and> dom (files os) \<subseteq> dom (files os')"
  using NC_new_cdf_Inl_cases [OF assms(1)]
proof
  assume "\<exists>os1 x. NCxdrfile_create os name mode = Inr (os1, x) \<and> os' = posix_close os1"
  then obtain os1 x where "NCxdrfile_create os name mode = Inr (os1, x)" "os' = posix_close os1" by blast
  with NCxdrfile_create_ok [OF _ assms(2)] show ?thesis by (auto simp add: posix_close_def)
qed (simp add: assms(2))

lemma NC_new_cdf_Inr:
  assumes "NC_new_cdf cg os name mode = Inr (os', h)" "os_ok os"
  shows "os_ok os' \<and> open_fds os' = Suc (open_fds os) \<and> x_ino (xdrs h) \<in> dom (files os') \<and>
         dom (files os) \<subseteq> dom (files os') \<and> path h = name \<and> dir os' name = Some (x_ino (xdrs h))"
  using NC_new_cdf_Inr_cases [OF assms(1)] NCxdrfile_create_ok [OF _ assms(2)] by blast

lemma sess_invI:
  assumes "tbl_inv (tbl s)"
    and "\<And>i p. HNDLE (tbl s) i = Some p \<Longrightarrow> heap s p \<noteq> None"
    and "\<And>i j p. HNDLE (tbl s) i = Some p \<Longrightarrow> HNDLE (tbl s) j = Some p \<Longrightarrow> i = j"
    and "\<And>p. heap s p \<noteq> None \<Longrightarrow> p < next_ptr s"
    and "\<And>p. heap s p \<noteq> None \<Longrightarrow> \<exists>i. HNDLE (tbl s) i = Some p"
    and "open_fds (sys s) = card (dom (heap s))" and "os_ok (sys s)"
    and "\<And>p h. heap s p = Some h \<Longrightarrow> x_ino (xdrs h) \<in> dom (files (sys s))"
  shows "sess_inv s"
  using assms unfolding sess_inv_def by blast

lemma sess_invD:
  assumes "sess_inv s"
  shows "tbl_inv (tbl s)"
    and "HNDLE (tbl s) i = Some p \<Longrightarrow> heap s p \<noteq> None"
    and "HNDLE (tbl s) i = Some p \<Longrightarrow> HNDLE (tbl s) j = Some p \<Longrightarrow> i = j"
    and "heap s p \<noteq> None \<Longrightarrow> p < next_ptr s"
    and "heap s p \<noteq> None \<Longrightarrow> \<exists>i. HNDLE (tbl s) i = Some p"
    and "open_fds (sys s) = card (dom (heap s))" and "os_ok (sys s)"
    and "heap s p = Some h \<Longrightarrow> x_ino (xdrs h) \<in> dom (files (sys s))"
  using assms unfolding sess_inv_def by blast+

lemma sess_inv_finite: "sess_inv s \<Longrightarrow> finite (dom (heap s))"
  by (rule finite_subset [of _ "{..<next_ptr s}"]) (auto dest: sess_invD(4))

lemma sess_inv_fresh: "sess_inv s \<Longrightarrow> heap s (next_ptr s) = None"
  using sess_invD(4) [of s "next_ptr s"] by blast

text \<open>The shape of a successful \<open>NC_open\<close>.\<close>

lemma NC_open_Inr_cases:
  assumes "NC_open cg s name mode = (Inr cid, s')"
  obtains t1 t2 os' h where
    "nc_alloc_table (oom (sys s)) (rlim_cur (sys s)) (tbl s) = Some t1"
    "nc_grow_table (oom (sys s)) (rlim_cur (sys s)) (first_free_id t1) t1 = Some t2"
    "NC_new_cdf cg (sys s) name mode = Inr (os', h)" "slot_in_array t2 (first_free_id t1)"
    "cid = first_free_id t1"
    "s' = s\<lparr>tbl := install_slot cid (next_ptr s) t2,
            heap := (heap s)(next_ptr s \<mapsto> h\<lparr>path := take FILENAME_MAX name\<rparr>),
            next_ptr := Suc (next_ptr s), sys := os'\<rparr>"
  using assms by (auto simp add: NC_open_def Let_def split: option.splits sum.splits prod.splits if_splits)

text \<open>A fresh handle at the least free identifier, through the table steps.\<close>

lemma sess_inv_install:
  assumes inv: "sess_inv s" and t2: "tbl_inv t2" "cdfs t2 \<noteq> None" "HNDLE t2 = HNDLE (tbl s)"
    and cid: "cid = first_free_id t2" "cid < max_NC_open t2"
    and os: "os_ok os'" "open_fds os' = Suc (open_fds (sys s))" "x_ino (xdrs h) \<in> dom (files os')"
      "dom (files (sys s)) \<subseteq> dom (files os')"
  shows "sess_inv (s\<lparr>tbl := install_slot cid (next_ptr s) t2, heap := (heap s)(next_ptr s \<mapsto> h),
                     next_ptr := Suc (next_ptr s), sys := os'\<rparr>)" (is "sess_inv ?s")
proof -
  let ?n = "next_ptr s"
  have H: "HNDLE (tbl ?s) = (HNDLE (tbl s))(cid \<mapsto> ?n)"
    using HNDLE_install [OF t2(1,2) cid] t2(3) by simp
  have fresh: "heap s ?n = None" by (rule sess_inv_fresh [OF inv])
  have old: "HNDLE (tbl s) i = Some p \<Longrightarrow> p \<noteq> ?n" for i p
    using sess_invD(2) [OF inv, of i p] fresh by (cases "p = ?n") auto
  show ?thesis
  proof (rule sess_invI)
    show "tbl_inv (tbl ?s)" using install_slot_inv [OF t2(1,2) cid] by simp
    show "heap ?s p \<noteq> None" if "HNDLE (tbl ?s) i = Some p" for i p
      using that H sess_invD(2) [OF inv] by (auto split: if_splits)
    show "i = j" if "HNDLE (tbl ?s) i = Some p" "HNDLE (tbl ?s) j = Some p" for i j p
      using that H old sess_invD(3) [OF inv] by (auto split: if_splits)
    show "p < next_ptr ?s" if "heap ?s p \<noteq> None" for p
      using that sess_invD(4) [OF inv, of p] by (auto split: if_splits)
    show "\<exists>i. HNDLE (tbl ?s) i = Some p" if "heap ?s p \<noteq> None" for p
    proof (cases "p = ?n")
      case True
      then show ?thesis using H by auto
    next
      case False
      then have "heap s p \<noteq> None" using that by simp
      then obtain i where i: "HNDLE (tbl s) i = Some p" using sess_invD(5) [OF inv] by blast
      have "i \<noteq> cid" using i first_free_id_free [of t2] cid t2 by (metis HNDLE_outside option.distinct(1)
          first_free_id_bounds order_le_less)
      then show ?thesis using i H by auto
    qed
    show "open_fds (sys ?s) = card (dom (heap ?s))"
      using os(2) sess_invD(6) [OF inv] sess_inv_finite [OF inv] fresh by (simp add: domIff)
    show "os_ok (sys ?s)" using os(1) by simp
    show "x_ino (xdrs g) \<in> dom (files (sys ?s))" if "heap ?s p = Some g" for p g
    proof (cases "p = ?n")
      case False
      then have "heap s p = Some g" using that by simp
      then have "x_ino (xdrs g) \<in> dom (files os')" using os(4) sess_invD(8) [OF inv, of p g] by blast
      then show ?thesis by simp
    qed (use that os(3) in simp)
  qed
qed

lemma NC_open_Inr_step:
  assumes inv: "sess_inv s" and sys: "ncdf (tbl s) \<le> MAX_AVAIL_OPENFILES (rlim_cur (sys s))"
    and r: "NC_open cg s name mode = (Inr cid, s')"
  shows "sess_inv s' \<and> HNDLE (tbl s') = (HNDLE (tbl s))(cid \<mapsto> next_ptr s) \<and>
         cid \<notin> dom (HNDLE (tbl s)) \<and> (\<forall>j. 0 \<le> j \<and> j < cid \<longrightarrow> j \<in> dom (HNDLE (tbl s))) \<and>
         (\<exists>h. heap s' (next_ptr s) = Some h \<and> path h = take FILENAME_MAX name) \<and>
         curr_opened (tbl s') = curr_opened (tbl s) + 1"
proof -
  obtain t1 t2 os' h where
    a: "nc_alloc_table (oom (sys s)) (rlim_cur (sys s)) (tbl s) = Some t1" and
    g: "nc_grow_table (oom (sys s)) (rlim_cur (sys s)) (first_free_id t1) t1 = Some t2" and
    n: "NC_new_cdf cg (sys s) name mode = Inr (os', h)" and
    c: "cid = first_free_id t1" and
    s': "s' = s\<lparr>tbl := install_slot cid (next_ptr s) t2,
            heap := (heap s)(next_ptr s \<mapsto> h\<lparr>path := take FILENAME_MAX name\<rparr>),
            next_ptr := Suc (next_ptr s), sys := os'\<rparr>"
    using r by (rule NC_open_Inr_cases)
  note ti = sess_invD(1) [OF inv]
  note A = nc_alloc_table_ok [OF ti a]
  have sys1: "ncdf t1 \<le> MAX_AVAIL_OPENFILES (rlim_cur (sys s))" using A sys by simp
  note G = nc_grow_table_ok [of t1, OF _ _ sys1 g] A
  note N = NC_new_cdf_Inr [OF n sess_invD(7) [OF inv]]
  have c2: "cid = first_free_id t2" "cid < max_NC_open t2" using G c by auto
  have "sess_inv s'"
    unfolding s' using sess_inv_install [OF inv _ _ _ c2] G A N by simp
  moreover have "HNDLE (tbl s') = (HNDLE (tbl s))(cid \<mapsto> next_ptr s)"
    using HNDLE_install [OF _ _ c2] G A s' by simp
  moreover have "cid \<notin> dom (HNDLE (tbl s)) \<and> (\<forall>j. 0 \<le> j \<and> j < cid \<longrightarrow> j \<in> dom (HNDLE (tbl s)))"
    using first_free_id_dom [OF ti] A c by simp
  moreover have "curr_opened (tbl s') = curr_opened (tbl s) + 1" using s' G A by simp
  ultimately show ?thesis using s' N by simp
qed

lemma sess_inv_tbl_sys:
  assumes inv: "sess_inv s" and t: "tbl_inv t" "HNDLE t = HNDLE (tbl s)"
    and os: "os_ok os" "open_fds os = open_fds (sys s)" "dom (files (sys s)) \<subseteq> dom (files os)"
  shows "sess_inv (s\<lparr>tbl := t, sys := os\<rparr>)"
proof (rule sess_invI)
  show "x_ino (xdrs h) \<in> dom (files (sys (s\<lparr>tbl := t, sys := os\<rparr>)))"
    if "heap (s\<lparr>tbl := t, sys := os\<rparr>) p = Some h" for p h
  proof -
    have "x_ino (xdrs h) \<in> dom (files os)" using that os(3) sess_invD(8) [OF inv, of p h] by auto
    then show ?thesis by simp
  qed
qed (use inv t os in \<open>auto dest: sess_invD\<close>)

lemma NC_open_tables:
  assumes inv: "sess_inv s" and sys: "ncdf (tbl s) \<le> MAX_AVAIL_OPENFILES (rlim_cur (sys s))"
    and a: "nc_alloc_table (oom (sys s)) (rlim_cur (sys s)) (tbl s) = Some t1"
  shows "tbl_inv t1 \<and> HNDLE t1 = HNDLE (tbl s) \<and>
         (nc_grow_table (oom (sys s)) (rlim_cur (sys s)) (first_free_id t1) t1 = Some t2 \<longrightarrow>
           tbl_inv t2 \<and> HNDLE t2 = HNDLE (tbl s) \<and> slot_in_array t2 (first_free_id t1))"
proof -
  note A = nc_alloc_table_ok [OF sess_invD(1) [OF inv] a]
  have sys1: "ncdf t1 \<le> MAX_AVAIL_OPENFILES (rlim_cur (sys s))" using A sys by simp
  show ?thesis
  proof (intro conjI impI)
    assume g: "nc_grow_table (oom (sys s)) (rlim_cur (sys s)) (first_free_id t1) t1 = Some t2"
    note G = nc_grow_table_ok [of t1, OF _ _ sys1 g]
    show "slot_in_array t2 (first_free_id t1)"
      using slot_in_array_first_free [of t2] G A by simp
  qed (use A nc_grow_table_ok [of t1, OF _ _ sys1] in auto)
qed

lemma NC_open_Inl_step:
  assumes inv: "sess_inv s" and sys: "ncdf (tbl s) \<le> MAX_AVAIL_OPENFILES (rlim_cur (sys s))"
    and r: "NC_open cg s name mode = (Inl e, s')"
  shows "sess_inv s' \<and> HNDLE (tbl s') = HNDLE (tbl s) \<and> heap s' = heap s \<and> e \<noteq> NC_UB"
proof (cases "nc_alloc_table (oom (sys s)) (rlim_cur (sys s)) (tbl s)")
  case None
  then show ?thesis using r inv by (simp add: NC_open_def)
next
  case (Some t1)
  note T = NC_open_tables [OF inv sys Some]
  show ?thesis
  proof (cases "nc_grow_table (oom (sys s)) (rlim_cur (sys s)) (first_free_id t1) t1")
    case None
    then have "s' = s\<lparr>tbl := t1\<rparr>" "e = NC_ENFILE"
      using r \<open>nc_alloc_table _ _ _ = Some t1\<close> by (auto simp add: NC_open_def Let_def)
    moreover have "s\<lparr>tbl := t1\<rparr> = s\<lparr>tbl := t1, sys := sys s\<rparr>" by simp
    ultimately show ?thesis using sess_inv_tbl_sys [OF inv, of t1 "sys s"] T sess_invD(7) [OF inv] by simp
  next
    case (Some t2)
    note T2 = T [THEN conjunct2, THEN conjunct2, rule_format, OF Some]
    have ok: "os_ok (sys s)" by (rule sess_invD(7) [OF inv])
    show ?thesis
    proof (cases "NC_new_cdf cg (sys s) name mode")
      case (Inl eo)
      obtain err os' where eo: "eo = (err, os')" by fastforce
      note N = NC_new_cdf_Inl [OF Inl [unfolded eo] ok]
      have "\<exists>os''. s' = s\<lparr>tbl := t2, sys := os''\<rparr> \<and> (os'' = os' \<or> posix_remove os' name = Inr os'') \<and>
                  e = NC_SYSERR"
        using r \<open>nc_alloc_table _ _ _ = Some t1\<close> Some Inl eo
        by (auto simp add: NC_open_def Let_def split: if_splits sum.splits)
      then obtain os'' where s': "s' = s\<lparr>tbl := t2, sys := os''\<rparr>" "e = NC_SYSERR"
        and o: "os'' = os' \<or> posix_remove os' name = Inr os''" by blast
      have "os_ok os'' \<and> open_fds os'' = open_fds (sys s) \<and> dom (files (sys s)) \<subseteq> dom (files os'')"
        using o N remove_keeps_fds_files [of os' name os''] by auto
      then show ?thesis using s' sess_inv_tbl_sys [OF inv] T2 by simp
    next
      case (Inr r2)
      then show ?thesis using r \<open>nc_alloc_table _ _ _ = Some t1\<close> Some T2
        by (auto simp add: NC_open_def Let_def split: prod.splits)
    qed
  qed
qed


lemma flush_dirty_writes:
  assumes "flush_dirty cg os h = Some (os', h')"
  shows "writes_only os os' \<and> (\<exists>x'. h' = h\<lparr>xdrs := x'\<rparr> \<and> x_ino x' = x_ino (xdrs h))"
proof -
  have "\<exists>x'. h = h\<lparr>xdrs := x'\<rparr> \<and> x_ino x' = x_ino (xdrs h)" by (rule exI [of _ "xdrs h"]) simp
  then show ?thesis using assms
    by (auto simp add: flush_dirty_def dest: xdr_cdf_encode_writes xdr_numrecs_writes split: if_splits)
qed

lemma sync_dirty_writes:
  "sync_dirty cg os h = Some (os', h') \<Longrightarrow>
   writes_only os os' \<and> x_ino (xdrs h') = x_ino (xdrs h) \<and> path h' = path h \<and> file_type h' = file_type h"
  by (auto simp add: sync_dirty_def dest!: xdr_cdf_encode_writes xdr_numrecs_writes split: if_splits)

lemma sess_inv_put_h:
  assumes inv: "sess_inv s" and p: "heap s p = Some h" and x: "x_ino (xdrs h') = x_ino (xdrs h)"
  shows "sess_inv (put_h s p h')"
proof (rule sess_invI)
  show "open_fds (sys (put_h s p h')) = card (dom (heap (put_h s p h')))"
    using sess_invD(6) [OF inv] p by (simp add: put_h_def insert_absorb domI)
  show "x_ino (xdrs g) \<in> dom (files (sys (put_h s p h')))" if "heap (put_h s p h') q = Some g" for q g
    using that p x sess_invD(8) [OF inv] by (auto simp add: put_h_def split: if_splits)
qed (use inv p in \<open>auto simp add: put_h_def dest: sess_invD split: if_splits\<close>)

lemma sess_inv_writes:
  assumes inv: "sess_inv s" and w: "writes_only (sys s) os'"
  shows "sess_inv (s\<lparr>sys := os'\<rparr>)"
proof -
  note W = writes_only_fields [OF w]
  have "s\<lparr>sys := os'\<rparr> = s\<lparr>tbl := tbl s, sys := os'\<rparr>" by simp
  then show ?thesis using sess_inv_tbl_sys [OF inv, of "tbl s" os'] sess_invD(1,7) [OF inv] W
      writes_only_os_ok [OF w] by simp
qed

text \<open>Freeing the handle of a live identifier and retiring its slot.\<close>

lemma sess_inv_free_retire:
  assumes inv: "sess_inv s" and live: "HNDLE (tbl s) cdfid = Some p"
    and post: "os_ok (post (posix_close (sys s)))" "open_fds (post (posix_close (sys s))) = open_fds (sys s) - 1"
      "dom (files (sys s)) \<subseteq> dom (files (post (posix_close (sys s))))"
  shows "sess_inv (s\<lparr>heap := (heap s)(p := None), sys := post (posix_close (sys s)),
                     tbl := retire_slot cdfid (tbl s)\<rparr>)" (is "sess_inv ?s")
proof -
  have H: "HNDLE (tbl ?s) = (HNDLE (tbl s))(cdfid := None)"
    using HNDLE_retire [OF sess_invD(1) [OF inv]] live by simp
  have other: "HNDLE (tbl s) i = Some q \<Longrightarrow> i \<noteq> cdfid \<Longrightarrow> q \<noteq> p" for i q
    using sess_invD(3) [OF inv, of i q cdfid] live by auto
  have pin: "p \<in> dom (heap s)" using sess_invD(2) [OF inv live] by auto
  show ?thesis
  proof (rule sess_invI)
    show "tbl_inv (tbl ?s)" using retire_slot_inv [OF sess_invD(1) [OF inv]] live by simp
    show "heap ?s q \<noteq> None" if "HNDLE (tbl ?s) i = Some q" for i q
      using that H other sess_invD(2) [OF inv] by (auto split: if_splits)
    show "i = j" if "HNDLE (tbl ?s) i = Some q" "HNDLE (tbl ?s) j = Some q" for i j q
      using that H sess_invD(3) [OF inv] by (auto split: if_splits)
    show "q < next_ptr ?s" if "heap ?s q \<noteq> None" for q
      using that sess_invD(4) [OF inv] by (auto split: if_splits)
    show "\<exists>i. HNDLE (tbl ?s) i = Some q" if "heap ?s q \<noteq> None" for q
    proof -
      have q: "q \<noteq> p" "heap s q \<noteq> None" using that by (auto split: if_splits)
      then obtain i where i: "HNDLE (tbl s) i = Some q" using sess_invD(5) [OF inv] by blast
      then have "i \<noteq> cdfid" using live q(1) by auto
      then show ?thesis using i H by auto
    qed
    show "open_fds (sys ?s) = card (dom (heap ?s))"
      using post(2) sess_invD(6) [OF inv] sess_inv_finite [OF inv] pin by (simp add: card_Diff_singleton)
    show "os_ok (sys ?s)" using post(1) by simp
    show "x_ino (xdrs g) \<in> dom (files (sys ?s))" if "heap ?s q = Some g" for q g
    proof -
      have "heap s q = Some g" using that by (auto split: if_splits)
      then have "x_ino (xdrs g) \<in> dom (files (sys s))" by (rule sess_invD(8) [OF inv])
      then show ?thesis using post(3) by auto
    qed
  qed
qed

lemma nc_check_Inr:
  "nc_check s cdfid = Inr (p, h) \<Longrightarrow> HNDLE (tbl s) cdfid = Some p \<and> heap s p = Some h"
  by (auto simp add: nc_check_def NC_check_id_def split: option.splits sum.splits)

lemma NC_new_cdf_flags: "NC_new_cdf cg os name mode = Inr (os', h) \<Longrightarrow> flags h = mode"
  by (auto simp add: NC_new_cdf_def Let_def split: sum.splits prod.splits if_splits option.splits)

lemma NC_open_Inr_handle:
  assumes r: "NC_open cg s name mode = (Inr cid, s')" and ok: "os_ok (sys s)"
  shows "\<exists>h. heap s' = (heap s)(next_ptr s \<mapsto> h) \<and> flags h = mode \<and>
             open_fds (sys s') = Suc (open_fds (sys s))"
proof -
  obtain t1 t2 os' h where
    n: "NC_new_cdf cg (sys s) name mode = Inr (os', h)" and
    s': "s' = s\<lparr>tbl := install_slot cid (next_ptr s) t2,
            heap := (heap s)(next_ptr s \<mapsto> h\<lparr>path := take FILENAME_MAX name\<rparr>),
            next_ptr := Suc (next_ptr s), sys := os'\<rparr>"
    by (rule NC_open_Inr_cases [OF r])
  show ?thesis using NC_new_cdf_flags [OF n] NC_new_cdf_Inr [OF n ok] s' by auto
qed

lemma sess_inv_put_sys:
  assumes inv: "sess_inv s" and p: "heap s p = Some h" and x: "x_ino (xdrs h') = x_ino (xdrs h)"
    and w: "writes_only (sys s) os'"
  shows "sess_inv ((put_h s p h')\<lparr>sys := os'\<rparr>)"
  using sess_inv_writes [OF sess_inv_put_h [OF inv p x], of os'] w by (simp add: put_h_def)

lemma ncsync_step:
  assumes inv: "sess_inv s" and r: "ncsync cg s cdfid = (r, s')"
  shows "sess_inv s' \<or> (r = Inl NC_SYSERR \<and> (\<exists>p. HNDLE (tbl s') cdfid = Some p \<and> heap s' p = None))"
proof (cases "nc_check s cdfid")
  case (Inl e)
  then show ?thesis using r inv by (simp add: ncsync_def)
next
  case (Inr ph)
  obtain p h where chk: "nc_check s cdfid = Inr (p, h)" using Inr by (cases ph) simp
  note C = nc_check_Inr [OF chk]
  note put = sess_inv_put_h [OF inv conjunct2 [OF C]]
  note putw = sess_inv_put_sys [OF inv conjunct2 [OF C]]
  show ?thesis
  proof (cases "flag_set (flags h) NC_INDEF")
    case True
    then show ?thesis using r chk inv by (simp add: ncsync_def)
  next
    case nd: False
    show ?thesis
    proof (cases "flag_set (flags h) NC_RDWR")
      case True
      then show ?thesis using r chk nd put putw
        by (auto simp add: ncsync_def Let_def set_xop_def dest!: sync_dirty_writes
                 split: option.splits prod.splits)
    next
      case False
      then show ?thesis using r chk nd put C inv
        by (auto simp add: ncsync_def Let_def set_xop_def xdr_cdf_decode_def NC_free_cdf_def
                 split: option.splits)
    qed
  qed
qed

lemma nc_check_Inl: "nc_check s cdfid = Inl e \<Longrightarrow> e = NC_EBADID \<or> e = NC_UB"
  by (auto simp add: nc_check_def NC_check_id_def split: option.splits sum.splits)

lemma ncsetfill_cases:
  assumes r: "ncsetfill cg s cdfid m = (r, s')"
  obtains (err) e where "r = Inl e" "s' = s" "e \<noteq> NC_EXDR"
    "e = NC_EINVAL \<longleftrightarrow> (\<exists>p h. nc_check s cdfid = Inr (p, h) \<and> flag_set (flags h) NC_RDWR \<and>
                                m \<noteq> NC_FILL \<and> m \<noteq> NC_NOFILL)"
  | (xdr) p h h' where "nc_check s cdfid = Inr (p, h)" "r = Inl NC_EXDR" "s' = put_h s p h'" "m = NC_FILL"
    "x_ino (xdrs h') = x_ino (xdrs h)"
  | (ok) p h h' os' where "nc_check s cdfid = Inr (p, h)" "flag_set (flags h) NC_RDWR"
    "m = NC_NOFILL \<or> m = NC_FILL"
    "r = Inr (uint (if flag_set (flags h) NC_NOFILL then NC_NOFILL else NC_FILL))"
    "s' = (put_h s p h')\<lparr>sys := os'\<rparr>" "writes_only (sys s) os'"
    "x_ino (xdrs h') = x_ino (xdrs h)" "x_op (xdrs h') = x_op (xdrs h)"
    "flag_set (flags h') NC_NOFILL \<longleftrightarrow> m = NC_NOFILL"
proof (cases "nc_check s cdfid")
  case (Inl e)
  then show ?thesis using r err nc_check_Inl [OF Inl] by (auto simp add: ncsetfill_def)
next
  case (Inr ph)
  obtain p h where chk: "nc_check s cdfid = Inr (p, h)" using Inr by (cases ph) simp
  note C = nc_check_Inr [OF chk]
  have put_id: "s = (put_h s p h)\<lparr>sys := sys s\<rparr>" using C by (simp add: put_h_def map_upd_triv)
  show ?thesis
  proof (cases "flag_set (flags h) NC_RDWR")
    case False
    then show ?thesis using r chk err by (auto simp add: ncsetfill_def)
  next
    case rw: True
    consider "m = NC_NOFILL" | "m = NC_FILL" | "m \<noteq> NC_NOFILL \<and> m \<noteq> NC_FILL" by blast
    then show ?thesis
    proof cases
      case 1
      let ?h' = "h\<lparr>flags := flags h OR NC_NOFILL\<rparr>"
      have e: "r = Inr (uint (if flag_set (flags h) NC_NOFILL then NC_NOFILL else NC_FILL))"
        "s' = put_h s p ?h'"
        using r chk rw 1 by (auto simp add: ncsetfill_def put_h_def)
      show ?thesis by (rule ok [where h' = ?h' and os' = "sys s"]) (simp_all add: e chk rw 1 flag_simps put_h_def)
    next
      case 2
      show ?thesis
      proof (cases "flag_set (flags h) NC_NOFILL")
        case False
        have e: "r = Inr (uint (if flag_set (flags h) NC_NOFILL then NC_NOFILL else NC_FILL))" "s' = s"
          using r chk rw 2 False by (auto simp add: ncsetfill_def)
        show ?thesis by (rule ok [where h' = h and os' = "sys s"]) (use e put_id chk rw 2 False in simp_all)
      next
        case nf: True
        show ?thesis
        proof (cases "sync_dirty cg (sys s) (set_xop XDR_ENCODE h)")
          case None
          have e: "r = Inl NC_EXDR" "s' = put_h s p (set_xop XDR_ENCODE h)"
            using r chk rw 2 nf None by (auto simp add: ncsetfill_def)
          show ?thesis by (rule xdr [where h' = "set_xop XDR_ENCODE h"]) (simp_all add: e chk set_xop_def 2)
        next
          case (Some a)
          obtain os' h2 where a: "a = (os', h2)" by fastforce
          note W = sync_dirty_writes [OF Some [unfolded a]]
          let ?h' = "set_xop (x_op (xdrs h)) (h2\<lparr>flags := flags h2 AND NOT NC_NOFILL\<rparr>)"
          have e: "r = Inr (uint (if flag_set (flags h) NC_NOFILL then NC_NOFILL else NC_FILL))"
            "s' = (put_h s p ?h')\<lparr>sys := os'\<rparr>"
            using r chk rw 2 nf Some a by (auto simp add: ncsetfill_def Let_def)
          show ?thesis
            by (rule ok [where h' = ?h' and os' = os']) (use e chk rw 2 W flag_clear_self [of "flags h2" NC_NOFILL] in \<open>simp_all add: set_xop_def\<close>)
        qed
      qed
    next
      case 3
      then show ?thesis using r chk rw err by (auto simp add: ncsetfill_def)
    qed
  qed
qed

lemma ncsetfill_step:
  assumes inv: "sess_inv s" and r: "ncsetfill cg s cdfid m = (r, s')"
  shows "sess_inv s' \<and> HNDLE (tbl s') = HNDLE (tbl s)"
  using r
proof (cases rule: ncsetfill_cases)
  case (err e)
  then show ?thesis using inv by simp
next
  case (xdr p h h')
  then show ?thesis using sess_inv_put_h [OF inv conjunct2 [OF nc_check_Inr [OF xdr(1)]]]
    by (simp add: put_h_def)
next
  case (ok p h h' os')
  then show ?thesis using sess_inv_put_sys [OF inv conjunct2 [OF nc_check_Inr [OF ok(1)]]]
    by (simp add: put_h_def)
qed


lemma put_h_seed [simp]: "tn_seed (put_h s p h) = tn_seed s"
  by (simp add: put_h_def)

lemma NC_open_seed: "NC_open cg s name mode = (r, s') \<Longrightarrow> tn_seed s' = tn_seed s"
  by (auto simp add: NC_open_def Let_def split: option.splits sum.splits prod.splits if_splits)

lemma ncsync_seed: "ncsync cg s cdfid = (r, s') \<Longrightarrow> tn_seed s' = tn_seed s"
  by (auto simp add: ncsync_def Let_def NC_free_cdf_def split: sum.splits option.splits prod.splits if_splits)

lemma ncsetfill_seed: "ncsetfill cg s cdfid m = (r, s') \<Longrightarrow> tn_seed s' = tn_seed s"
  by (auto simp add: ncsetfill_def Let_def split: sum.splits option.splits prod.splits if_splits)


section \<open>Properties\<close>

text \<open>
  C3. Opening refines inserting into the map of open identifiers: from a state that
  satisfies the session invariant, and while the table does not exceed the system
  limit, a successful \<open>NC_open\<close> returns the least free identifier, maps it to a
  freshly allocated handle whose path is the requested name (truncated to
  \<open>FILENAME_MAX\<close>), leaves every other identifier as it was, and counts one more
  open file.
\<close>

theorem NC_open_refines:
  assumes "sess_inv s" "ncdf (tbl s) \<le> MAX_AVAIL_OPENFILES (rlim_cur (sys s))"
    "NC_open cg s name mode = (Inr cid, s')"
  shows "HNDLE (tbl s') = (HNDLE (tbl s))(cid \<mapsto> next_ptr s) \<and>
         cid \<notin> dom (HNDLE (tbl s)) \<and> (\<forall>j. 0 \<le> j \<and> j < cid \<longrightarrow> j \<in> dom (HNDLE (tbl s))) \<and>
         heap s (next_ptr s) = None \<and>
         (\<exists>h. heap s' (next_ptr s) = Some h \<and> path h = take FILENAME_MAX name) \<and>
         curr_opened (tbl s') = curr_opened (tbl s) + 1"
  using NC_open_Inr_step [OF assms] sess_inv_fresh [OF assms(1)] by simp

text \<open>
  C8. Opening keeps the session invariant, whether it succeeds or fails, as long as
  the table does not exceed the system limit.
\<close>

theorem NC_open_inv:
  assumes "sess_inv s" "ncdf (tbl s) \<le> MAX_AVAIL_OPENFILES (rlim_cur (sys s))"
    "NC_open cg s name mode = (r, s')"
  shows "sess_inv s'"
proof (cases r)
  case (Inl e)
  then show ?thesis using NC_open_Inl_step [of s cg name mode e s'] assms by simp
next
  case (Inr cid)
  then show ?thesis using NC_open_Inr_step [of s cg name mode cid s'] assms by simp
qed

text \<open>
  C9. A failed open changes no open identifier and no handle, and is never undefined
  behaviour: every error of \<open>NC_open\<close> is a reported error.
\<close>

theorem NC_open_error_keeps_handles:
  assumes "sess_inv s" "ncdf (tbl s) \<le> MAX_AVAIL_OPENFILES (rlim_cur (sys s))"
    "NC_open cg s name mode = (Inl e, s')"
  shows "HNDLE (tbl s') = HNDLE (tbl s) \<and> heap s' = heap s \<and> e \<noteq> NC_UB"
  using NC_open_Inl_step [OF assms] by simp

text \<open>
  C10. Exhaustion: when every identifier below the capacity is live and the capacity is
  already the system limit, \<open>NC_open\<close> fails with \<open>NC_ENFILE\<close> and changes
  nothing at all (no file is opened).
\<close>

theorem NC_open_exhausted:
  assumes "cdfs (tbl s) \<noteq> None" "first_free_id (tbl s) = ncdf (tbl s)"
    "ncdf (tbl s) = max_NC_open (tbl s)" "max_NC_open (tbl s) = MAX_AVAIL_OPENFILES (rlim_cur (sys s))"
  shows "NC_open cg s name mode = (Inl NC_ENFILE, s)"
proof -
  have "nc_alloc_table (oom (sys s)) (rlim_cur (sys s)) (tbl s) = Some (tbl s)"
    using assms(1) by (rule nc_alloc_table_allocated)
  moreover have "nc_grow_table (oom (sys s)) (rlim_cur (sys s)) (first_free_id (tbl s)) (tbl s) = None"
    using assms(2-4) by (simp add: nc_grow_table_def)
  ultimately show ?thesis by (simp add: NC_open_def)
qed

text \<open>
  C11. When every identifier is live, the capacity equals the high-water mark, and the
  system limit has dropped below the capacity, the growth step of \<open>NC_open\<close> succeeds
  without growing the array (\<open>NC_reset_maxopenfiles\<close> keeps a list longer than the
  request) and the handle would be stored one past the end of \<^verbatim>\<open>_cdfs\<close>: once
  the new handle is created, \<open>NC_open\<close> is undefined behaviour.
\<close>

theorem NC_open_grow_overflow:
  assumes inv: "tbl_inv (tbl s)" and alloc: "cdfs (tbl s) \<noteq> None"
    and full: "first_free_id (tbl s) = ncdf (tbl s)" "ncdf (tbl s) = max_NC_open (tbl s)"
    and low: "MAX_AVAIL_OPENFILES (rlim_cur (sys s)) < max_NC_open (tbl s)"
    and new: "NC_new_cdf cg (sys s) name mode = Inr (os', h)"
  shows "NC_open cg s name mode = (Inl NC_UB, s\<lparr>sys := os'\<rparr>)"
proof -
  have "\<not> slot_in_array (tbl s) (ncdf (tbl s))"
    using tbl_inv_length [OF inv alloc] full(2) alloc by (auto simp add: slot_in_array_def slots_def)
  then show ?thesis
    using nc_alloc_table_allocated [OF alloc] nc_grow_table_stuck [OF alloc full(2) low] full(1) new
    by (simp add: NC_open_def Let_def)
qed

text \<open>
  C14. A successful \<open>ncsetfill\<close> was given \<open>NC_FILL\<close> or \<open>NC_NOFILL\<close> on a
  writable file, returns the mode the handle had before, leaves the handle's
  \<open>NC_NOFILL\<close> bit set exactly when the new mode is \<open>NC_NOFILL\<close>, and restores the
  direction of its stream.
\<close>

theorem ncsetfill_mode:
  assumes chk: "nc_check s cdfid = Inr (p, h)" and r: "ncsetfill cg s cdfid m = (Inr v, s')"
  shows "v = uint (if flag_set (flags h) NC_NOFILL then NC_NOFILL else NC_FILL) \<and>
         (m = NC_NOFILL \<or> m = NC_FILL) \<and> flag_set (flags h) NC_RDWR \<and>
         (\<exists>h'. heap s' p = Some h' \<and> (flag_set (flags h') NC_NOFILL \<longleftrightarrow> m = NC_NOFILL) \<and>
               x_op (xdrs h') = x_op (xdrs h) \<and> x_ino (xdrs h') = x_ino (xdrs h))"
  using r
proof (cases rule: ncsetfill_cases)
  case (ok p' h' h'' os')
  then show ?thesis using chk by (auto simp add: put_h_def)
qed simp_all

text \<open>
  C15. Every error of \<open>ncsetfill\<close> other than a failed flush leaves the state as it
  was, and it reports \<open>NC_EINVAL\<close> exactly when the file is writable and the mode is
  neither \<open>NC_FILL\<close> nor \<open>NC_NOFILL\<close>.
\<close>

theorem ncsetfill_error:
  assumes r: "ncsetfill cg s cdfid m = (Inl e, s')"
  shows "(e = NC_EXDR \<or> s' = s) \<and>
         (e = NC_EINVAL \<longleftrightarrow> (\<exists>p h. nc_check s cdfid = Inr (p, h) \<and> flag_set (flags h) NC_RDWR \<and>
                                 m \<noteq> NC_FILL \<and> m \<noteq> NC_NOFILL))"
  using r
proof (cases rule: ncsetfill_cases)
  case (xdr p h h')
  then show ?thesis by auto
qed simp_all

text \<open>
  C16. On a read-only file in data mode whose header cannot be reread, \<open>ncsync\<close>
  reports \<open>NC_SYSERR\<close> and frees the handle while its identifier still points at it:
  the state it leaves breaks the session invariant.
\<close>

theorem ncsync_failure_dangles:
  assumes inv: "sess_inv s" and chk: "nc_check s cdfid = Inr (p, h)"
    and ro: "\<not> flag_set (flags h) NC_INDEF" "\<not> flag_set (flags h) NC_RDWR"
    and bad: "xdr_cdf_decode cg (sys s) (set_xop XDR_DECODE h) = None"
  shows "\<exists>s'. ncsync cg s cdfid = (Inl NC_SYSERR, s') \<and> HNDLE (tbl s') cdfid = Some p \<and>
              heap s' p = None \<and> \<not> sess_inv s'"
proof -
  note C = nc_check_Inr [OF chk]
  let ?s' = "s\<lparr>heap := (heap s)(p := None), sys := posix_close (sys s)\<rparr>"
  have "ncsync cg s cdfid = (Inl NC_SYSERR, ?s')"
    using chk ro bad C by (simp add: ncsync_def NC_free_cdf_def)
  moreover have "\<not> sess_inv ?s'"
    using sess_invD(2) [of ?s' cdfid p] C by auto
  ultimately show ?thesis using C by auto
qed

end
