(* ===== verification/Tempname.thy ===== *)
theory Tempname
  imports NC_Types
begin

text \<open>
  \<open>NCtempname\<close> of \<open>mfhdf/src/file.c\<close>: the name of the shadow file of a
  redefinition. It keeps the directory part of the prototype path (up to and
  including its last \<open>/\<close>) and replaces the file name by three letters of a static
  seed, one letter tried from \<open>a\<close> to \<open>z\<close> until \<open>access(2)\<close> says the name is
  free, and the last four decimal digits of the process id. The seed is static: it is
  part of the process state and advances, like an odometer whose first letter turns
  fastest, at every call that gets that far. The result is the empty string when the
  directory part leaves no room for the eight characters or every letter is taken.
\<close>

definition TN_NSEED :: nat where "TN_NSEED = 3"
definition TN_NACCES :: nat where "TN_NACCES = 1"
definition TN_NDIGITS :: nat where "TN_NDIGITS = 4"

definition tn_init_seed :: string where "tn_init_seed = ''aaa''"

text \<open>The index after the last separator (\<open>strrchr(tnbuf, SEP)\<close>), 0 without one.\<close>

definition tn_begin :: "string \<Rightarrow> nat" where
  "tn_begin p = length (dropWhile (\<lambda>c. c \<noteq> CHR ''/'') (rev p))"

text \<open>The four characters the digit loop writes, most significant first.\<close>

definition tn_digits :: "nat \<Rightarrow> string" where
  "tn_digits n = map (\<lambda>k. char_of (48 + (n div 10 ^ k) mod 10 :: nat)) [3, 2, 1, 0]"

fun tn_next_seed :: "string \<Rightarrow> string" where
  "tn_next_seed [] = []"
| "tn_next_seed (c # cs) =
     (if c = CHR ''z'' then CHR ''a'' # tn_next_seed cs else char_of (of_char c + 1 :: nat) # cs)"

definition tn_letters :: string where
  "tn_letters = map (\<lambda>n. char_of (n :: nat)) [97..<123]"

definition NCtempname :: "os_state \<Rightarrow> string \<Rightarrow> string \<Rightarrow> string \<times> string" where
  "NCtempname os seed proto =
     (let b = tn_begin proto in
      if FILENAME_MAX - b \<le> TN_NSEED + TN_NACCES + TN_NDIGITS then ('''', seed)
      else
        (let pre = take b proto; ds = tn_digits (pid os); seed' = tn_next_seed seed in
         case find (\<lambda>c. \<not> posix_access os (pre @ seed @ [c] @ ds)) tn_letters of
           None \<Rightarrow> ('''', seed')
         | Some c \<Rightarrow> (pre @ seed @ [c] @ ds, seed')))"

text \<open>A well-formed seed: three lowercase letters.\<close>

definition tn_seed_ok :: "string \<Rightarrow> bool" where
  "tn_seed_ok sd \<longleftrightarrow> length sd = 3 \<and> set sd \<subseteq> set tn_letters"

text \<open>The decimal digits.\<close>

definition tn_decimals :: string where
  "tn_decimals = map (\<lambda>n. char_of (n :: nat)) [48..<58]"

text \<open>A sample process: empty directory, process id 4242.\<close>

definition tn_sample_os :: os_state where
  "tn_sample_os = \<lparr>dir = Map.empty, files = Map.empty, next_ino = 0, open_fds = 0, rlim_cur = 1024,
      pid = 4242, oom = False, rename_fault = False, in_use = {}\<rparr>"

section \<open>Properties\<close>

lemma tn_begin_le: "tn_begin p \<le> length p"
  by (metis tn_begin_def length_dropWhile_le length_rev)

lemma tn_begin_take: "take (tn_begin p) p = rev (dropWhile (\<lambda>c. c \<noteq> CHR ''/'') (rev p))"
proof -
  let ?d = "dropWhile (\<lambda>c. c \<noteq> CHR ''/'') (rev p)"
  have "rev p = takeWhile (\<lambda>c. c \<noteq> CHR ''/'') (rev p) @ ?d" by simp
  then have "p = rev ?d @ rev (takeWhile (\<lambda>c. c \<noteq> CHR ''/'') (rev p))"
    by (metis rev_append rev_rev_ident)
  then show ?thesis by (metis append_eq_conv_conj length_rev tn_begin_def)
qed

lemma length_tn_digits [simp]: "length (tn_digits n) = 4"
  by (simp add: tn_digits_def)

lemma NCtempname_cases:
  "fst (NCtempname os seed proto) = [] \<or>
   (\<exists>c. fst (NCtempname os seed proto) = take (tn_begin proto) proto @ seed @ [c] @ tn_digits (pid os) \<and>
        c \<in> set tn_letters \<and> \<not> posix_access os (fst (NCtempname os seed proto)))"
  by (auto simp add: NCtempname_def Let_def split: option.splits dest: find_Some_iff [THEN iffD1])

lemma tn_next_seed_length [simp]: "length (tn_next_seed sd) = length sd"
  by (induction sd) auto

lemma tn_letters_succ_all: "\<forall>c \<in> set tn_letters. c \<noteq> CHR ''z'' \<longrightarrow> char_of (Suc (of_char c)) \<in> set tn_letters"
  by code_simp

lemma tn_letters_succ: "c \<in> set tn_letters \<Longrightarrow> c \<noteq> CHR ''z'' \<Longrightarrow> char_of (Suc (of_char c)) \<in> set tn_letters"
  using tn_letters_succ_all by blast

lemma tn_letters_a: "CHR ''a'' \<in> set tn_letters"
  by code_simp

lemma tn_next_seed_letters: "set sd \<subseteq> set tn_letters \<Longrightarrow> set (tn_next_seed sd) \<subseteq> set tn_letters"
  by (induction sd) (auto simp add: tn_letters_a tn_letters_succ)

lemma tn_seed_ok_next: "tn_seed_ok sd \<Longrightarrow> tn_seed_ok (tn_next_seed sd)"
  unfolding tn_seed_ok_def using tn_next_seed_letters [of sd] by simp

lemma tn_letters_nosep: "CHR ''/'' \<notin> set tn_letters"
  by code_simp

lemma tn_decimals_nosep: "CHR ''/'' \<notin> set tn_decimals"
  by code_simp

lemma tn_decimal_char: "char_of (48 + m mod 10 :: nat) \<in> set tn_decimals"
proof -
  have "48 + m mod 10 \<in> set [48..<58]" unfolding set_upt by simp
  then show ?thesis unfolding tn_decimals_def set_map by (rule image_eqI [OF refl])
qed

lemma tn_digits_decimals: "set (tn_digits n) \<subseteq> set tn_decimals"
  by (auto simp add: tn_digits_def tn_decimal_char)

lemma tn_begin_append_nosep:
  assumes "CHR ''/'' \<notin> set s"
  shows "tn_begin (take (tn_begin p) p @ s) = tn_begin p"
proof -
  let ?P = "\<lambda>c. c \<noteq> CHR ''/''"
  have pre: "rev (take (tn_begin p) p) = dropWhile ?P (rev p)" by (simp add: tn_begin_take)
  have "\<And>x. x \<in> set (rev s) \<Longrightarrow> ?P x" using assms by auto
  then have "dropWhile ?P (rev s @ dropWhile ?P (rev p)) = dropWhile ?P (dropWhile ?P (rev p))"
    by (rule dropWhile_append2)
  then show ?thesis
    unfolding tn_begin_def [of "take (tn_begin p) p @ s"] rev_append pre dropWhile_idem
    by (simp add: tn_begin_def)
qed

lemma NCtempname_seed: "snd (NCtempname os seed proto) =
  (if FILENAME_MAX - tn_begin proto \<le> 8 then seed else tn_next_seed seed)"
  by (simp add: NCtempname_def Let_def TN_NSEED_def TN_NACCES_def TN_NDIGITS_def split: option.split)

lemma NCtempname_length:
  assumes "NCtempname os seed proto = (name, seed')" "name \<noteq> []" "length seed = 3"
  shows "length name \<le> FILENAME_MAX"
proof -
  obtain c where n: "name = take (tn_begin proto) proto @ seed @ [c] @ tn_digits (pid os)"
    using NCtempname_cases [of os seed proto] assms(1,2) by auto
  have "\<not> FILENAME_MAX - tn_begin proto \<le> 8"
    using assms(1,2) by (auto simp add: NCtempname_def Let_def TN_NSEED_def TN_NACCES_def TN_NDIGITS_def)
  then show ?thesis using n assms(3) tn_begin_le [of proto] by (simp add: min_def)
qed

text \<open>C20. The shadow name of a redefinition lives in the directory of the prototype:
  when \<open>NCtempname\<close> returns a name, it is the prototype's directory part followed by
  eight characters without a separator (so \<open>rename(2)\<close> stays on one file system), it
  names no existing file, and the static seed stays three letters.\<close>

theorem NCtempname_colocated_fresh:
  assumes "tn_seed_ok seed" and "fst (NCtempname os seed proto) \<noteq> []"
  shows "take (tn_begin proto) (fst (NCtempname os seed proto)) = take (tn_begin proto) proto \<and>
         tn_begin (fst (NCtempname os seed proto)) = tn_begin proto \<and>
         length (fst (NCtempname os seed proto)) = tn_begin proto + 8 \<and>
         dir os (fst (NCtempname os seed proto)) = None \<and>
         tn_seed_ok (snd (NCtempname os seed proto))"
proof -
  let ?r = "fst (NCtempname os seed proto)"
  obtain c where r: "?r = take (tn_begin proto) proto @ seed @ [c] @ tn_digits (pid os)"
    and c: "c \<in> set tn_letters" and free: "\<not> posix_access os ?r"
    using NCtempname_cases [of os seed proto] assms(2) by blast
  have nosep: "CHR ''/'' \<notin> set (seed @ [c] @ tn_digits (pid os))"
    using assms(1) c tn_letters_nosep tn_digits_decimals tn_decimals_nosep
    unfolding tn_seed_ok_def by auto
  have room: "\<not> FILENAME_MAX - tn_begin proto \<le> 8"
    using assms(2) by (auto simp add: NCtempname_def Let_def TN_NSEED_def TN_NACCES_def TN_NDIGITS_def)
  have len: "length (take (tn_begin proto) proto) = tn_begin proto"
    using tn_begin_le [of proto] by simp
  show ?thesis
  proof (intro conjI)
    show "take (tn_begin proto) ?r = take (tn_begin proto) proto" using r len
      by (metis append_eq_conv_conj)
    show "tn_begin ?r = tn_begin proto" using r tn_begin_append_nosep [OF nosep] by simp
    show "length ?r = tn_begin proto + 8" using r len assms(1) by (simp add: tn_seed_ok_def)
    show "dir os ?r = None" using free r by (simp add: posix_access_def)
    show "tn_seed_ok (snd (NCtempname os seed proto))"
      using room assms(1) tn_seed_ok_next by (simp add: NCtempname_seed)
  qed
qed

lemma NCtempname_sample:
  "NCtempname tn_sample_os tn_init_seed ''d/f.nc'' = (''d/aaaa4242'', ''baa'')"
proof -
  have b: "tn_begin ''d/f.nc'' = 2" by (simp add: tn_begin_def)
  have d: "tn_digits 4242 = ''4242''" by (simp add: tn_digits_def char_of_def bit_0)
  show ?thesis
    by (simp add: NCtempname_def tn_sample_os_def b d tn_init_seed_def posix_access_def tn_letters_def
        TN_NSEED_def TN_NACCES_def TN_NDIGITS_def FILENAME_MAX_def char_of_def bit_0)
qed

lemma tn_seed_ok_init: "tn_seed_ok tn_init_seed"
  by (simp add: tn_seed_ok_def tn_init_seed_def tn_letters_def char_of_def bit_0)

theorem NCtempname_colocated_fresh_witness:
  "tn_seed_ok tn_init_seed \<and> fst (NCtempname tn_sample_os tn_init_seed ''d/f.nc'') = ''d/aaaa4242'' \<and>
   tn_begin (fst (NCtempname tn_sample_os tn_init_seed ''d/f.nc'')) = 2"
  using NCtempname_colocated_fresh [of tn_init_seed tn_sample_os "''d/f.nc''"]
  by (simp add: tn_seed_ok_init NCtempname_sample tn_begin_def)

end
