(* ===== verification/Data_Copy.thy ===== *)
theory Data_Copy
  imports NC_Types "HOL-Library.While_Combinator"
begin

text \<open>
  The data copy engine of \<open>mfhdf/src/file.c\<close>: \<open>NC_dcpy\<close> moves \<open>nbytes\<close> bytes
  from one stream to another through a buffer of \<open>NC_DCP_BUFSIZE\<close> bytes, and
  \<open>NC_vcpy\<close> and \<open>NC_reccpy\<close> position the source stream on a variable, or on one
  record of a variable, before calling it. \<open>nbytes\<close> is a \<open>long\<close> compared with a
  \<open>size_t\<close>, so the loop test is unsigned: the count is a \<open>64 word\<close> and the loop
  terminates because its \<open>unat\<close> drops by the buffer size each round. The result
  carries the file system as the loop left it, also on failure (the chunks already
  written stay written). The reference is \<open>copy_spec\<close>, one read and one write of
  the whole range; the two agree whenever the source holds the range and the two
  streams are on different files. \<open>NC_dcpy_while\<close> runs the same loop as the
  source's \<open>while\<close> statement through \<open>while_option\<close>; that it always returns is the
  termination of the loop.
\<close>

definition NC_DCP_BUFSIZE :: u64 where "NC_DCP_BUFSIZE = 8192"

lemma unat_minus_bufsize:
  assumes "NC_DCP_BUFSIZE < n"
  shows "unat (n - NC_DCP_BUFSIZE) = unat n - 8192"
proof -
  have "NC_DCP_BUFSIZE \<le> n" using assms by simp
  then have "unat (n - NC_DCP_BUFSIZE) = unat n - unat NC_DCP_BUFSIZE" by (rule unat_sub)
  then show ?thesis by (simp add: NC_DCP_BUFSIZE_def)
qed

lemma unat_gt_bufsize: "NC_DCP_BUFSIZE < n \<Longrightarrow> 8192 < unat n"
  by (simp add: NC_DCP_BUFSIZE_def word_less_nat_alt)

function NC_dcpy :: "os_state \<Rightarrow> xdr \<Rightarrow> xdr \<Rightarrow> u64 \<Rightarrow> bool \<times> os_state \<times> xdr \<times> xdr" where
  "NC_dcpy os target source nbytes =
     (if NC_DCP_BUFSIZE < nbytes then
        (case h4_xdr_getbytes os source (unat NC_DCP_BUFSIZE) of
           None \<Rightarrow> (False, os, target, source)
         | Some (buf, source') \<Rightarrow>
             (case h4_xdr_putbytes os target buf of
                None \<Rightarrow> (False, os, target, source')
              | Some (os', target') \<Rightarrow> NC_dcpy os' target' source' (nbytes - NC_DCP_BUFSIZE)))
      else
        (case h4_xdr_getbytes os source (unat nbytes) of
           None \<Rightarrow> (False, os, target, source)
         | Some (buf, source') \<Rightarrow>
             (case h4_xdr_putbytes os target buf of
                None \<Rightarrow> (False, os, target, source')
              | Some (os', target') \<Rightarrow> (True, os', target', source'))))"
  by pat_completeness auto
termination
  by (relation "measure (\<lambda>(os, target, source, n). unat n)")
     (auto simp add: unat_minus_bufsize dest: unat_gt_bufsize)

declare NC_dcpy.simps [simp del]

text \<open>
  The same loop as the C source writes it: \<open>while (nbytes > sizeof(buf))\<close> with the
  \<open>goto err\<close> exits as a cleared \<open>ok\<close> flag that stops the loop, then the final
  short transfer, run by \<open>while_option\<close> (which is \<open>None\<close> when the loop does not end).
\<close>

type_synonym dcpy_state = "bool \<times> os_state \<times> xdr \<times> xdr \<times> u64"

definition NC_dcpy_cond :: "dcpy_state \<Rightarrow> bool" where
  "NC_dcpy_cond st = (case st of (ok, os, target, source, nbytes) \<Rightarrow> ok \<and> NC_DCP_BUFSIZE < nbytes)"

definition NC_dcpy_body :: "dcpy_state \<Rightarrow> dcpy_state" where
  "NC_dcpy_body st =
     (case st of (ok, os, target, source, nbytes) \<Rightarrow>
        (case h4_xdr_getbytes os source (unat NC_DCP_BUFSIZE) of
           None \<Rightarrow> (False, os, target, source, nbytes)
         | Some (buf, source') \<Rightarrow>
             (case h4_xdr_putbytes os target buf of
                None \<Rightarrow> (False, os, target, source', nbytes)
              | Some (os', target') \<Rightarrow> (True, os', target', source', nbytes - NC_DCP_BUFSIZE))))"

definition NC_dcpy_tail :: "dcpy_state \<Rightarrow> bool \<times> os_state \<times> xdr \<times> xdr" where
  "NC_dcpy_tail st =
     (case st of (ok, os, target, source, nbytes) \<Rightarrow>
        if \<not> ok then (False, os, target, source)
        else (case h4_xdr_getbytes os source (unat nbytes) of
                None \<Rightarrow> (False, os, target, source)
              | Some (buf, source') \<Rightarrow>
                  (case h4_xdr_putbytes os target buf of
                     None \<Rightarrow> (False, os, target, source')
                   | Some (os', target') \<Rightarrow> (True, os', target', source'))))"

definition NC_dcpy_while :: "os_state \<Rightarrow> xdr \<Rightarrow> xdr \<Rightarrow> u64 \<Rightarrow> (bool \<times> os_state \<times> xdr \<times> xdr) option" where
  "NC_dcpy_while os target source nbytes =
     map_option NC_dcpy_tail (while_option NC_dcpy_cond NC_dcpy_body (True, os, target, source, nbytes))"


text \<open>\<open>NC_vcpy\<close>: seek the source to the variable's \<open>begin\<close>, copy \<open>len\<close> bytes.\<close>

definition NC_vcpy :: "os_state \<Rightarrow> xdr \<Rightarrow> nc \<Rightarrow> nat \<Rightarrow> bool \<times> os_state \<times> xdr \<times> nc" where
  "NC_vcpy os target old varid =
     (let vp = the (vars old) ! varid in
      case h4_xdr_setpos os (xdrs old) (unat (v_begin vp)) of
        None \<Rightarrow> (False, os, target, old)
      | Some src \<Rightarrow>
          (let (ok, os', target', src') = NC_dcpy os target src (v_len vp)
           in (ok, os', target', old\<lparr>xdrs := src'\<rparr>)))"

text \<open>\<open>NC_reccpy\<close>: the same at \<open>begin + recsize * recnum\<close>, in unsigned long arithmetic.\<close>

definition NC_reccpy :: "os_state \<Rightarrow> xdr \<Rightarrow> nc \<Rightarrow> nat \<Rightarrow> nat \<Rightarrow> bool \<times> os_state \<times> xdr \<times> nc" where
  "NC_reccpy os target old varid recnum =
     (let vp = the (vars old) ! varid in
      case h4_xdr_setpos os (xdrs old) (unat (v_begin vp + recsize old * word_of_nat recnum)) of
        None \<Rightarrow> (False, os, target, old)
      | Some src \<Rightarrow>
          (let (ok, os', target', src') = NC_dcpy os target src (v_len vp)
           in (ok, os', target', old\<lparr>xdrs := src'\<rparr>)))"

section \<open>Reference: one read, one write\<close>

definition copy_spec :: "os_state \<Rightarrow> xdr \<Rightarrow> xdr \<Rightarrow> nat \<Rightarrow> os_state \<times> xdr \<times> xdr" where
  "copy_spec os target source n =
     (os\<lparr>files := (files os)(x_ino target \<mapsto>
          put_at (x_pos target) (take n (drop (x_pos source) (the (files os (x_ino source)))))
                 (the (files os (x_ino target))))\<rparr>,
      target\<lparr>x_pos := x_pos target + n\<rparr>, source\<lparr>x_pos := x_pos source + n\<rparr>)"

lemma copy_spec_chunk:
  assumes "x_ino target \<noteq> x_ino source" "files os (x_ino source) = Some d"
    "files os (x_ino target) = Some dt" "x_pos source + k + m \<le> length d"
  shows "copy_spec (os\<lparr>files := (files os)(x_ino target \<mapsto>
                      put_at (x_pos target) (take k (drop (x_pos source) d)) dt)\<rparr>)
            (target\<lparr>x_pos := x_pos target + k\<rparr>) (source\<lparr>x_pos := x_pos source + k\<rparr>) m
         = copy_spec os target source (k + m)"
proof -
  let ?a = "take k (drop (x_pos source) d)"
  have la: "length ?a = k" using assms(4) by simp
  have "put_at (x_pos target + k) (take m (drop (x_pos source + k) d)) (put_at (x_pos target) ?a dt)
        = put_at (x_pos target) (?a @ take m (drop (x_pos source + k) d)) dt"
    using put_at_append [of "x_pos target" ?a] la by simp
  also have "?a @ take m (drop (x_pos source + k) d) = take (k + m) (drop (x_pos source) d)"
    by (simp add: take_add add.commute)
  finally show ?thesis
    using assms by (simp add: copy_spec_def ac_simps)
qed

theorem NC_dcpy_eq_copy_spec:
  assumes "x_ino target \<noteq> x_ino source" "files os (x_ino source) = Some d"
    "files os (x_ino target) = Some dt" "x_pos source + unat n \<le> length d"
  shows "NC_dcpy os target source n = (True, copy_spec os target source (unat n))"
  using assms
proof (induction os target source n arbitrary: dt rule: NC_dcpy.induct)
  case (1 os target source nbytes)
  let ?p = "x_pos source"
  show ?case
  proof (cases "NC_DCP_BUFSIZE < nbytes")
    case True
    let ?buf = "take 8192 (drop ?p d)"
    let ?os' = "os\<lparr>files := (files os)(x_ino target \<mapsto> put_at (x_pos target) ?buf dt)\<rparr>"
    let ?t' = "target\<lparr>x_pos := x_pos target + 8192\<rparr>"
    let ?s' = "source\<lparr>x_pos := ?p + 8192\<rparr>"
    have big: "8192 < unat nbytes" using True by (rule unat_gt_bufsize)
    have m: "unat (nbytes - NC_DCP_BUFSIZE) = unat nbytes - 8192" using True by (rule unat_minus_bufsize)
    have g: "h4_xdr_getbytes os source (unat NC_DCP_BUFSIZE) = Some (?buf, ?s')"
      using "1.prems" big by (simp add: stream_simps NC_DCP_BUFSIZE_def)
    have lb: "length ?buf = 8192" using "1.prems" big by simp
    have pu: "h4_xdr_putbytes os target ?buf = Some (?os', ?t')"
      using "1.prems" lb by (simp add: stream_simps)
    have rec: "NC_dcpy ?os' ?t' ?s' (nbytes - NC_DCP_BUFSIZE) =
               (True, copy_spec ?os' ?t' ?s' (unat (nbytes - NC_DCP_BUFSIZE)))"
      using "1.IH" [OF True g refl, of "(?os', ?t')" ?os' ?t'] pu "1.prems" m big
      by simp
    have "copy_spec ?os' ?t' ?s' (unat nbytes - 8192) = copy_spec os target source (8192 + (unat nbytes - 8192))"
      using copy_spec_chunk [of target source os d dt 8192 "unat nbytes - 8192"] "1.prems" big by simp
    then show ?thesis
      using True g pu rec m big by (simp add: NC_dcpy.simps [of os target source nbytes])
  next
    case False
    have g: "h4_xdr_getbytes os source (unat nbytes) =
             Some (take (unat nbytes) (drop ?p d), source\<lparr>x_pos := ?p + unat nbytes\<rparr>)"
      using "1.prems" by (simp add: stream_simps)
    have lb: "length (take (unat nbytes) (drop ?p d)) = unat nbytes" using "1.prems" by simp
    show ?thesis
      using False g "1.prems" lb
      by (simp add: NC_dcpy.simps [of os target source nbytes] stream_simps copy_spec_def)
  qed
qed

lemma NC_dcpy_short_source:
  assumes "x_ino target \<noteq> x_ino source" "files os (x_ino source) = Some d"
    "length d < x_pos source + unat n"
  shows "\<not> fst (NC_dcpy os target source n)"
  using assms
proof (induction os target source n rule: NC_dcpy.induct)
  case (1 os target source nbytes)
  show ?case
  proof (cases "NC_DCP_BUFSIZE < nbytes")
    case True
    have m: "unat (nbytes - NC_DCP_BUFSIZE) = unat nbytes - 8192" using True by (rule unat_minus_bufsize)
    have big: "8192 < unat nbytes" using True by (rule unat_gt_bufsize)
    show ?thesis
    proof (cases "h4_xdr_getbytes os source (unat NC_DCP_BUFSIZE)")
      case None
      then show ?thesis using True by (simp add: NC_dcpy.simps [of os target source nbytes])
    next
      case (Some r)
      obtain buf s' where r: "r = (buf, s')" by (cases r)
      have s': "s' = source\<lparr>x_pos := x_pos source + 8192\<rparr>"
        using Some r "1.prems"(2) by (auto simp add: h4_xdr_getbytes_def NC_DCP_BUFSIZE_def split: if_splits)
      show ?thesis
      proof (cases "h4_xdr_putbytes os target buf")
        case None
        then show ?thesis using True Some r by (simp add: NC_dcpy.simps [of os target source nbytes])
      next
        case (Some q)
        obtain os' t' where q: "q = (os', t')" by (cases q)
        have f: "files os' (x_ino s') = Some d"
          using h4_xdr_putbytes_files [of os target buf os' t' "x_ino source"] Some q "1.prems" s' by simp
        have "length d < x_pos s' + unat (nbytes - NC_DCP_BUFSIZE)" using "1.prems"(3) s' m big by simp
        moreover have "x_ino t' \<noteq> x_ino s'"
          using Some q s' "1.prems"(1) by (auto simp add: h4_xdr_putbytes_def split: option.splits)
        ultimately have "\<not> fst (NC_dcpy os' t' s' (nbytes - NC_DCP_BUFSIZE))"
          using "1.IH" [OF True \<open>h4_xdr_getbytes os source (unat NC_DCP_BUFSIZE) = Some r\<close>[unfolded r]
                 refl Some [unfolded q] refl] f by simp
        then show ?thesis using True \<open>h4_xdr_getbytes os source (unat NC_DCP_BUFSIZE) = Some r\<close> r Some q
          by (simp add: NC_dcpy.simps [of os target source nbytes])
      qed
    qed
  next
    case False
    then show ?thesis using "1.prems"
      by (simp add: NC_dcpy.simps [of os target source nbytes] h4_xdr_getbytes_def)
  qed
qed

lemma NC_dcpy_frame:
  "NC_dcpy os target source n = (ok, os', t', s') \<Longrightarrow> frame_at (x_ino target) os os' \<and> x_ino t' = x_ino target"
proof (induction os target source n arbitrary: ok os' t' s' rule: NC_dcpy.induct)
  case (1 os target source nbytes)
  show ?case
  proof (cases "NC_DCP_BUFSIZE < nbytes")
    case True
    show ?thesis
    proof (cases "h4_xdr_getbytes os source (unat NC_DCP_BUFSIZE)")
      case (Some r)
      obtain buf src' where r: "r = (buf, src')" by fastforce
      show ?thesis
      proof (cases "h4_xdr_putbytes os target buf")
        case (Some w)
        obtain os1 t1 where w: "w = (os1, t1)" by fastforce
        have rec: "NC_dcpy os1 t1 src' (nbytes - NC_DCP_BUFSIZE) = (ok, os', t', s')"
          using "1.prems" True Some w \<open>h4_xdr_getbytes _ _ _ = Some r\<close> r
          by (simp add: NC_dcpy.simps [of os target source nbytes])
        note P = h4_xdr_putbytes_frame [OF Some [unfolded w]]
        have "frame_at (x_ino t1) os1 os' \<and> x_ino t' = x_ino t1"
          using "1.IH"(1) [OF True \<open>h4_xdr_getbytes _ _ _ = Some r\<close> r [symmetric] Some w [symmetric] rec] .
        then show ?thesis using P frame_at_trans by metis
      qed (use "1.prems" True \<open>h4_xdr_getbytes _ _ _ = Some r\<close> r in \<open>simp add: NC_dcpy.simps [of os target source nbytes]\<close>)
    qed (use "1.prems" True in \<open>simp add: NC_dcpy.simps [of os target source nbytes]\<close>)
  next
    case False
    then show ?thesis using "1.prems"
      by (auto simp add: NC_dcpy.simps [of os target source nbytes] dest: h4_xdr_putbytes_frame
               split: option.splits prod.splits)
  qed
qed

lemma NC_dcpy_source:
  "NC_dcpy os target source n = (ok, os', t', s') \<Longrightarrow> x_ino s' = x_ino source"
proof (induction os target source n arbitrary: ok os' t' s' rule: NC_dcpy.induct)
  case (1 os target source nbytes)
  show ?case
  proof (cases "NC_DCP_BUFSIZE < nbytes")
    case True
    show ?thesis
    proof (cases "h4_xdr_getbytes os source (unat NC_DCP_BUFSIZE)")
      case (Some r)
      obtain buf src' where r: "r = (buf, src')" by fastforce
      have s: "x_ino src' = x_ino source"
        using Some r by (auto simp add: h4_xdr_getbytes_def split: option.splits if_splits)
      show ?thesis
      proof (cases "h4_xdr_putbytes os target buf")
        case (Some w)
        obtain os1 t1 where w: "w = (os1, t1)" by fastforce
        have rec: "NC_dcpy os1 t1 src' (nbytes - NC_DCP_BUFSIZE) = (ok, os', t', s')"
          using "1.prems" True Some w \<open>h4_xdr_getbytes _ _ _ = Some r\<close> r
          by (simp add: NC_dcpy.simps [of os target source nbytes])
        show ?thesis
          using "1.IH"(1) [OF True \<open>h4_xdr_getbytes _ _ _ = Some r\<close> r [symmetric] Some w [symmetric] rec] s
          by simp
      qed (use "1.prems" True \<open>h4_xdr_getbytes _ _ _ = Some r\<close> r s in \<open>simp add: NC_dcpy.simps [of os target source nbytes]\<close>)
    qed (use "1.prems" True in \<open>simp add: NC_dcpy.simps [of os target source nbytes]\<close>)
  next
    case False
    then show ?thesis using "1.prems"
      by (auto simp add: NC_dcpy.simps [of os target source nbytes] h4_xdr_getbytes_def
               split: option.splits prod.splits if_splits)
  qed
qed

section \<open>Properties\<close>

text \<open>
  C23. The chunked copy is the one-shot copy: on two different files, \<open>NC_dcpy\<close>
  succeeds exactly when the source holds the \<open>nbytes\<close> bytes after its position,
  and then its effect is \<open>copy_spec\<close>: those bytes written at the target's
  position, both positions advanced by \<open>nbytes\<close>, every other file unchanged.
\<close>

theorem NC_dcpy_correct:
  assumes "x_ino target \<noteq> x_ino source" "files os (x_ino source) = Some d"
    "files os (x_ino target) = Some dt"
  shows "fst (NC_dcpy os target source n) = (x_pos source + unat n \<le> length d) \<and>
         (x_pos source + unat n \<le> length d \<longrightarrow>
            snd (NC_dcpy os target source n) = copy_spec os target source (unat n))"
proof (cases "x_pos source + unat n \<le> length d")
  case True
  then show ?thesis using NC_dcpy_eq_copy_spec [OF assms True] by simp
next
  case False
  then show ?thesis using NC_dcpy_short_source [OF assms(1,2)] by simp
qed

lemma NC_dcpy_correct_witness:
  "NC_dcpy \<lparr>dir = Map.empty, files = [0 \<mapsto> [1, 2, 3, 4, 5], 1 \<mapsto> []], next_ino = 2,
      open_fds = 2, rlim_cur = 1024, pid = 7, oom = False, rename_fault = False, in_use = {}\<rparr>
     \<lparr>x_op = XDR_ENCODE, x_ino = 1, x_pos = 0\<rparr> \<lparr>x_op = XDR_DECODE, x_ino = 0, x_pos = 1\<rparr> 3
   = (True, \<lparr>dir = Map.empty, files = [0 \<mapsto> [1, 2, 3, 4, 5], 1 \<mapsto> [2, 3, 4]], next_ino = 2,
      open_fds = 2, rlim_cur = 1024, pid = 7, oom = False, rename_fault = False, in_use = {}\<rparr>,
      \<lparr>x_op = XDR_ENCODE, x_ino = 1, x_pos = 3\<rparr>, \<lparr>x_op = XDR_DECODE, x_ino = 0, x_pos = 4\<rparr>)"
proof -
  let ?os = "\<lparr>dir = Map.empty, files = [0 \<mapsto> [1, 2, 3, 4, 5], 1 \<mapsto> []], next_ino = 2,
      open_fds = 2, rlim_cur = 1024, pid = 7, oom = False, rename_fault = False, in_use = {}\<rparr>
      :: os_state"
  let ?t = "\<lparr>x_op = XDR_ENCODE, x_ino = 1, x_pos = 0\<rparr>"
  let ?s = "\<lparr>x_op = XDR_DECODE, x_ino = 0, x_pos = 1\<rparr>"
  have "fst (NC_dcpy ?os ?t ?s 3) = (x_pos ?s + unat (3::u64) \<le> length [1, 2, 3, 4, 5::byte]) \<and>
        (x_pos ?s + unat (3::u64) \<le> length [1, 2, 3, 4, 5::byte] \<longrightarrow>
           snd (NC_dcpy ?os ?t ?s 3) = copy_spec ?os ?t ?s (unat (3::u64)))"
    by (rule NC_dcpy_correct) simp_all
  then have "NC_dcpy ?os ?t ?s 3 = (True, copy_spec ?os ?t ?s 3)" by (simp add: prod_eq_iff)
  then show ?thesis by (simp add: copy_spec_def put_at_def fun_upd_twist)
qed


text \<open>
  C24. The copy loop of \<open>NC_dcpy\<close> terminates: run as the \<open>while\<close> loop of the
  source, it ends for every count, stream and file system (\<open>while_option\<close> returns),
  and what it returns is the result of the recursive definition.
\<close>

theorem NC_dcpy_while_terminates:
  "NC_dcpy_while os target source n = Some (NC_dcpy os target source n)"
proof (induction os target source n rule: NC_dcpy.induct)
  case (1 os target source nbytes)
  let ?W = "while_option NC_dcpy_cond NC_dcpy_body"
  have stop: "?W (False, st) = Some (False, st)" for st
    by (subst while_option_unfold) (simp add: NC_dcpy_cond_def)
  show ?case
  proof (cases "NC_DCP_BUFSIZE < nbytes")
    case True
    have u: "?W (True, os, target, source, nbytes) = ?W (NC_dcpy_body (True, os, target, source, nbytes))"
      using True by (subst while_option_unfold) (simp add: NC_dcpy_cond_def)
    show ?thesis
    proof (cases "h4_xdr_getbytes os source (unat NC_DCP_BUFSIZE)")
      case None
      then show ?thesis using True
        by (simp add: NC_dcpy_while_def u NC_dcpy_body_def stop NC_dcpy_tail_def NC_dcpy.simps [of os target source nbytes])
    next
      case (Some r)
      obtain buf source' where g: "r = (buf, source')" by (cases r)
      show ?thesis
      proof (cases "h4_xdr_putbytes os target buf")
        case None
        then show ?thesis using True Some g
          by (simp add: NC_dcpy_while_def u NC_dcpy_body_def stop NC_dcpy_tail_def NC_dcpy.simps [of os target source nbytes])
      next
        case (Some q)
        obtain os' target' where p: "q = (os', target')" by (cases q)
        have "NC_dcpy_while os target source nbytes = NC_dcpy_while os' target' source' (nbytes - NC_DCP_BUFSIZE)"
          using \<open>h4_xdr_getbytes _ _ _ = Some r\<close> g Some p by (simp add: NC_dcpy_while_def u NC_dcpy_body_def)
        then show ?thesis using "1.IH" [OF True \<open>h4_xdr_getbytes _ _ _ = Some r\<close> g [symmetric] Some p [symmetric]]
            True \<open>h4_xdr_getbytes _ _ _ = Some r\<close> g Some p
          by (simp add: NC_dcpy.simps [of os target source nbytes])
      qed
    qed
  next
    case False
    have u: "?W (True, os, target, source, nbytes) = Some (True, os, target, source, nbytes)"
      using False by (subst while_option_unfold) (simp add: NC_dcpy_cond_def)
    show ?thesis using False
      by (simp add: NC_dcpy_while_def u NC_dcpy_tail_def NC_dcpy.simps [of os target source nbytes])
  qed
qed

end
