(* ===== verification/Redef.thy ===== *)
theory Redef
  imports Session Tempname Data_Copy
begin

unbundle bit_operations_syntax

text \<open>
  The redefinition protocol of \<open>mfhdf/src/file.c\<close>. \<open>ncredef\<close> moves the open
  handle (the \<^emph>\<open>stash\<close>) to a free identifier and puts in its place a copy of it
  on a shadow file named by \<open>NCtempname\<close>; the copy's \<open>redefid\<close> names the stash.
  \<open>NC_endef\<close> lays the new schema out, writes its header, copies each old variable
  into the new file (or fills a new one), copies the records, and renames the shadow
  over the original; when the rename fails it puts the stash back. \<open>ncendef\<close>,
  \<open>ncclose\<close> and \<open>ncabort\<close> are its callers. Every write the C code makes to
  \<open>_cdfs[i]\<close> with an index the code does not check is guarded by
  \<open>slot_in_array\<close>: outside the array it is undefined behaviour (\<open>NC_UB\<close>).
\<close>

text \<open>The four mode bits \<open>NC_endef\<close> clears at its end.\<close>

definition clear_modes :: "nc \<Rightarrow> nc" where
  "clear_modes h = h\<lparr>flags := flags h AND NOT (NC_CREAT OR NC_INDEF OR NC_NDIRTY OR NC_HDIRTY)\<rparr>"

section \<open>ncredef\<close>

text \<open>
  The fill of the last record when the \<^emph>\<open>global\<close> \<open>ncopts\<close> has \<open>NC_NOFILL\<close>
  (line 585 tests \<open>ncopts\<close>, not the handle's flags): a dirty record count is
  written and its bit cleared.
\<close>

definition redef_flush :: "codec \<Rightarrow> u32 \<Rightarrow> os_state \<Rightarrow> nc \<Rightarrow> (os_state \<times> nc) + nc" where
  "redef_flush cg opts os h =
     (if flag_set opts NC_NOFILL then
        (let h1 = set_xop XDR_ENCODE h in
         if flag_set (flags h1) NC_NDIRTY then
           (case xdr_numrecs cg os h1 of
              None \<Rightarrow> Inr h1
            | Some (os', h2) \<Rightarrow> Inl (os', h2\<lparr>flags := flags h2 AND NOT NC_NDIRTY\<rparr>))
         else Inl (os, h1))
      else Inl (os, h))"

text \<open>
  \<open>ncredef\<close>: in define mode the error is reported only when \<open>STASH(cdfid)\<close>, the
  slot the handle's \<open>redefid\<close> names, holds a handle (whose path the report reads);
  otherwise, as for a file still being created, it returns \<open>-1\<close> silently.
\<close>

definition ncredef :: "codec \<Rightarrow> nc_state \<Rightarrow> int \<Rightarrow> int result" where
  "ncredef cg s cdfid =
     (case nc_check s cdfid of
        Inl e \<Rightarrow> (Inl e, s)
      | Inr (p, h) \<Rightarrow>
          if flag_set (flags h) NC_INDEF then
            (case HNDLE (tbl s) (redefid h) of
               None \<Rightarrow> (Inl NC_NOREPORT, s)
             | Some q \<Rightarrow> (case heap s q of None \<Rightarrow> (Inl NC_UB, s) | Some _ \<Rightarrow> (Inl NC_EINDEFINE, s)))
          else if \<not> flag_set (flags h) NC_RDWR then (Inl NC_EPERM, s)
          else if file_type h = HDF_FILE then
            (Inr 0, put_h s p (h\<lparr>flags := flags h OR NC_INDEF, redefid := 1\<rparr>))
          else
            (let t = tbl s; id = first_free_id t in
             if id = ncdf t \<and> ncdf t \<ge> max_NC_open t then (Inl NC_ENFILE, s)
             else
               (case redef_flush cg (ncopts s) (sys s) h of
                  Inr h1 \<Rightarrow> (Inl NC_EXDR, put_h s p h1)
                | Inl (os1, h1) \<Rightarrow>
                    (let (name, seed') = NCtempname os1 (tn_seed s) (path h1);
                         s1 = (put_h s p h1)\<lparr>sys := os1, tn_seed := seed'\<rparr>
                     in case NC_dup_cdf os1 name NC_NOCLOBBER h1 of
                          Inl (_, os2) \<Rightarrow> (Inl NC_SYSERR, s1\<lparr>sys := os2\<rparr>)
                        | Inr (os2, new) \<Rightarrow>
                            (let q = next_ptr s1 in
                             (Inr 0,
                              s1\<lparr>tbl := set_slot cdfid (Some q) (install_slot id p t),
                                 heap := (heap s1)(p \<mapsto> h1\<lparr>flags := flags h1 OR NC_INDEF\<rparr>,
                                                   q \<mapsto> new\<lparr>path := take FILENAME_MAX name, redefid := id\<rparr>),
                                 next_ptr := Suc q, sys := os2\<rparr>))))))"

section \<open>NC_endef\<close>

text \<open>
  What one variable of the new schema gets in a pass of \<open>NC_endef\<close>: after a
  redefinition (no \<open>NC_CREAT\<close>) a variable whose index the stash has is copied from
  the stash by \<open>cp\<close> (\<open>NC_vcpy\<close> or \<open>NC_reccpy\<close>), which also moves the stash's
  stream; any other variable is filled unless \<open>NC_NOFILL\<close>. The stash is
  dereferenced when the handle is not a creation, so a missing one is \<open>NC_UB\<close>.
  The result is the outcome, the file system, the new stream and the stash.
\<close>

type_synonym copier = "nc \<Rightarrow> nat \<Rightarrow> os_state \<Rightarrow> xdr \<Rightarrow> bool \<times> os_state \<times> xdr \<times> nc"

type_synonym endef_acc = "(nc_err + unit) \<times> os_state \<times> xdr \<times> nc option"

definition endef_fill :: "codec \<Rightarrow> u32 \<Rightarrow> nc option \<Rightarrow> nc_var \<Rightarrow> os_state \<Rightarrow> xdr \<Rightarrow> endef_acc" where
  "endef_fill cg fl st v os x =
     (if flag_set fl NC_NOFILL then (Inr (), os, x, st)
      else (case xdr_NC_fill cg os x v of
              None \<Rightarrow> (Inl NC_EXDR, os, x, st)
            | Some (os', x') \<Rightarrow> (Inr (), os', x', st)))"

definition endef_var :: "codec \<Rightarrow> u32 \<Rightarrow> copier \<Rightarrow> nc option \<Rightarrow> nat \<Rightarrow> nc_var \<Rightarrow> os_state \<Rightarrow> xdr \<Rightarrow> endef_acc" where
  "endef_var cg fl cp st ii v os x =
     (if \<not> flag_set fl NC_CREAT then
        (case st of
           None \<Rightarrow> (Inl NC_UB, os, x, st)
         | Some old \<Rightarrow>
             (case vars old of
                Some ovs \<Rightarrow>
                  if ii < length ovs then
                    (case cp old ii os x of
                       (ok, os', x', old') \<Rightarrow> (if ok then Inr () else Inl NC_EXDR, os', x', Some old'))
                  else endef_fill cg fl st v os x
              | None \<Rightarrow> endef_fill cg fl st v os x))
      else endef_fill cg fl st v os x)"

text \<open>
  One pass over the variables of the new schema, \<open>ii\<close> their index; \<open>want\<close>
  selects the record variables (the record pass) or the others (the first pass).
\<close>

fun endef_vars :: "codec \<Rightarrow> u32 \<Rightarrow> copier \<Rightarrow> bool \<Rightarrow> nc option \<Rightarrow> nat \<Rightarrow> nc_var list \<Rightarrow>
                   os_state \<Rightarrow> xdr \<Rightarrow> endef_acc" where
  "endef_vars cg fl cp want st ii [] os x = (Inr (), os, x, st)"
| "endef_vars cg fl cp want st ii (v # vs) os x =
     (if IS_RECVAR v \<noteq> want then endef_vars cg fl cp want st (Suc ii) vs os x
      else (case endef_var cg fl cp st ii v os x of
              (Inr _, os', x', st') \<Rightarrow> endef_vars cg fl cp want st' (Suc ii) vs os' x'
            | r \<Rightarrow> r))"

definition vcp :: copier where
  "vcp old ii os x = NC_vcpy os x old ii"

definition rcp :: "nat \<Rightarrow> copier" where
  "rcp jj old ii os x = NC_reccpy os x old ii jj"

text \<open>
  The record loop: records \<open>jj\<close> to \<open>jj + k - 1\<close>, each a record pass. The C loop
  counter is an \<open>unsigned\<close> compared with the stash's \<open>numrecs\<close>; the model runs
  it \<open>unat numrecs\<close> times, which is what C does while the count fits 32 bits.
\<close>

fun endef_recs :: "codec \<Rightarrow> u32 \<Rightarrow> nc option \<Rightarrow> nc_var list \<Rightarrow> nat \<Rightarrow> nat \<Rightarrow> os_state \<Rightarrow> xdr \<Rightarrow> endef_acc" where
  "endef_recs cg fl st vs jj 0 os x = (Inr (), os, x, st)"
| "endef_recs cg fl st vs jj (Suc k) os x =
     (case endef_vars cg fl (rcp jj) True st 0 vs os x of
        (Inr _, os', x', st') \<Rightarrow> endef_recs cg fl st' vs (Suc jj) k os' x'
      | r \<Rightarrow> r)"

text \<open>Writing the stash, as the loops left it, back to its pointer.\<close>

definition stash_put :: "nc_state \<Rightarrow> ptr option \<Rightarrow> nc option \<Rightarrow> nc_state" where
  "stash_put s q st = (case (q, st) of (Some q', Some old) \<Rightarrow> put_h s q' old | _ \<Rightarrow> s)"

text \<open>
  The commit after the copies: rename the shadow over the stash's path. On success
  the handle takes the real path, the stash is freed, its slot retired and the
  handle's \<open>redefid\<close> reset. On failure the stash goes back to \<open>cdfid\<close>, the
  stash's slot is retired and the new handle freed (its file stays on disk).
\<close>

definition endef_commit :: "nc_state \<Rightarrow> int \<Rightarrow> ptr \<Rightarrow> ptr option \<Rightarrow> nc \<Rightarrow> nc \<Rightarrow> int result" where
  "endef_commit s cdfid p stp h old =
     (case posix_rename (sys s) (path h) (path old) of
        Inl _ \<Rightarrow>
          (if \<not> slot_in_array (tbl s) cdfid \<or> \<not> slot_in_array (tbl s) (redefid h) then (Inl NC_UB, s)
           else
             (case NC_free_cdf (s\<lparr>tbl := retire_slot (redefid h) (set_slot cdfid stp (tbl s))\<rparr>) (Some p) of
                Inl e \<Rightarrow> (Inl e, s)
              | Inr s' \<Rightarrow> (Inl NC_SYSERR, s')))
      | Inr os' \<Rightarrow>
          (let h1 = h\<lparr>path := take FILENAME_MAX (path old)\<rparr> in
           case NC_free_cdf ((put_h s p h1)\<lparr>sys := os'\<rparr>) stp of
             Inl e \<Rightarrow> (Inl e, s)
           | Inr s' \<Rightarrow>
               (if \<not> slot_in_array (tbl s') (redefid h1) then (Inl NC_UB, s')
                else (Inr 0, (put_h s' p (clear_modes (h1\<lparr>redefid := -1\<rparr>)))
                               \<lparr>tbl := retire_slot (redefid h1) (tbl s')\<rparr>))))"

text \<open>
  \<open>NC_endef\<close>: lay the schema out (not for HDF files), write the header; HDF files
  stop there. Without variables the code jumps to \<open>done\<close>, skipping the copies
  \<^emph>\<open>and the commit\<close>. Otherwise the first pass, then after a redefinition the
  record loop, the record count of the stash, and the commit. A failure returns with
  the handle and the stash as far as they got.
\<close>

definition NC_endef :: "codec \<Rightarrow> nc_state \<Rightarrow> int \<Rightarrow> ptr \<Rightarrow> nc \<Rightarrow> int result" where
  "NC_endef cg s cdfid p h0 =
     (let stp = HNDLE (tbl s) (redefid h0);
          st = (case stp of None \<Rightarrow> None | Some q \<Rightarrow> heap s q);
          h1 = set_xop XDR_ENCODE (if file_type h0 \<noteq> HDF_FILE then NC_begins (c_xlen cg h0) h0 else h0)
      in case xdr_cdf_encode cg (sys s) h1 of
           None \<Rightarrow> (Inl NC_EXDR, put_h s p h1)
         | Some (os1, h2) \<Rightarrow>
             (let done = (\<lambda>h os. (Inr 0, (put_h s p (clear_modes h))\<lparr>sys := os\<rparr>));
                  fail = (\<lambda>e h st os. (Inl e, (stash_put (put_h s p h) stp st)\<lparr>sys := os\<rparr>))
              in if file_type h2 = HDF_FILE then done h2 os1
              else case vars h2 of
                None \<Rightarrow> done h2 os1
              | Some vs \<Rightarrow>
                  (case endef_vars cg (flags h2) vcp False st 0 vs os1 (xdrs h2) of
                     (Inl e, os2, x2, st2) \<Rightarrow> fail e (h2\<lparr>xdrs := x2\<rparr>) st2 os2
                   | (Inr _, os2, x2, st2) \<Rightarrow>
                       if flag_set (flags h2) NC_CREAT then done (h2\<lparr>xdrs := x2\<rparr>) os2
                       else case st2 of
                         None \<Rightarrow> fail NC_UB (h2\<lparr>xdrs := x2\<rparr>) st2 os2
                       | Some old \<Rightarrow>
                           (case endef_recs cg (flags h2) st2 vs 0 (unat (numrecs old)) os2 x2 of
                              (Inl e, os3, x3, st3) \<Rightarrow> fail e (h2\<lparr>xdrs := x3\<rparr>) st3 os3
                            | (Inr _, os3, x3, None) \<Rightarrow> fail NC_UB (h2\<lparr>xdrs := x3\<rparr>) None os3
                            | (Inr _, os3, x3, Some old3) \<Rightarrow>
                                (let h3 = h2\<lparr>xdrs := x3, numrecs := numrecs old3\<rparr> in
                                 case xdr_numrecs cg os3 h3 of
                                   None \<Rightarrow> fail NC_EXDR h3 (Some old3) os3
                                 | Some (os4, h4) \<Rightarrow>
                                     endef_commit ((stash_put (put_h s p h4) stp (Some old3))\<lparr>sys := os4\<rparr>)
                                       cdfid p stp h4 old3)))))"

definition ncendef :: "codec \<Rightarrow> nc_state \<Rightarrow> int \<Rightarrow> int result" where
  "ncendef cg s cdfid =
     (case nc_check s cdfid of
        Inl e \<Rightarrow> (Inl e, s)
      | Inr (p, h) \<Rightarrow>
          (case NC_indefine s cdfid of
             None \<Rightarrow> (Inl NC_UB, s)
           | Some False \<Rightarrow> (Inl NC_ENOTINDEFINE, s)
           | Some True \<Rightarrow> NC_endef cg s cdfid p h))"

section \<open>Closing and aborting\<close>

text \<open>
  Releasing identifier \<open>cdfid\<close> (the common tail of \<open>ncclose\<close> and \<open>ncabort\<close>):
  free the handle, let \<open>post\<close> act on the file system (the removals of
  \<open>ncabort\<close>), clear the slot and retire it.
\<close>

definition release :: "nc_state \<Rightarrow> int \<Rightarrow> ptr \<Rightarrow> (os_state \<Rightarrow> os_state) \<Rightarrow> int result" where
  "release s cdfid p post =
     (case NC_free_cdf s (Some p) of
        Inl e \<Rightarrow> (Inl e, s)
      | Inr s1 \<Rightarrow>
          (if \<not> slot_in_array (tbl s1) cdfid then (Inl NC_UB, s1)
           else (Inr 0, s1\<lparr>sys := post (sys s1), tbl := retire_slot cdfid (tbl s1)\<rparr>)))"

definition remove_quiet :: "string \<Rightarrow> os_state \<Rightarrow> os_state" where
  "remove_quiet pth os = (case posix_remove os pth of Inl _ \<Rightarrow> os | Inr os' \<Rightarrow> os')"

text \<open>The removal \<open>ncabort\<close> makes, by file kind and the saved flags.\<close>

definition abort_removes :: "file_kind \<Rightarrow> u32 \<Rightarrow> bool" where
  "abort_removes ft fl =
     (case ft of
        netCDF_FILE \<Rightarrow> flag_set fl (NC_INDEF OR NC_CREAT)
      | HDF_FILE \<Rightarrow> flag_set fl NC_CREAT
      | CDF_FILE \<Rightarrow> False)"

definition abort_tail :: "nc_state \<Rightarrow> int \<Rightarrow> ptr \<Rightarrow> string \<Rightarrow> u32 \<Rightarrow> int result" where
  "abort_tail s cdfid p pth fl =
     (case heap s p of
        None \<Rightarrow> (Inl NC_UB, s)
      | Some h \<Rightarrow>
          release s cdfid p (if abort_removes (file_type h) fl then remove_quiet pth else id))"

text \<open>
  \<open>ncabort\<close>: in define mode after a redefinition, free the stash, clear and retire
  the slot \<open>redefid\<close> names (for an HDF file \<open>ncredef\<close> set it to \<open>TRUE\<close>, i.e. 1),
  and reset \<open>redefid\<close>; in data mode flush a dirty writable file; then free the
  handle, remove the file if it was being created or was a shadow, and retire
  \<open>cdfid\<close>.
\<close>

definition ncabort :: "codec \<Rightarrow> nc_state \<Rightarrow> int \<Rightarrow> int result" where
  "ncabort cg s cdfid =
     (case nc_check s cdfid of
        Inl e \<Rightarrow> (Inl e, s)
      | Inr (p, h) \<Rightarrow>
          (let fl = flags h; pth = take FILENAME_MAX (path h) in
           if flag_set fl (NC_INDEF OR NC_CREAT) then
             (if \<not> flag_set fl NC_CREAT then
                (let i = redefid h in
                 case NC_free_cdf s (HNDLE (tbl s) i) of
                   Inl e \<Rightarrow> (Inl e, s)
                 | Inr s1 \<Rightarrow>
                     (if \<not> slot_in_array (tbl s1) i then (Inl NC_UB, s1)
                      else (case heap s1 p of
                              None \<Rightarrow> (Inl NC_UB, s1)
                            | Some h1 \<Rightarrow>
                                abort_tail ((put_h s1 p (h1\<lparr>redefid := -1\<rparr>))\<lparr>tbl := retire_slot i (tbl s1)\<rparr>)
                                  cdfid p pth fl)))
              else abort_tail s cdfid p pth fl)
           else if flag_set fl NC_RDWR then
             (let h1 = set_xop XDR_ENCODE h in
              case flush_dirty cg (sys s) h1 of
                None \<Rightarrow> (Inl NC_EXDR, put_h s p h1)
              | Some (os', h2) \<Rightarrow> abort_tail ((put_h s p h2)\<lparr>sys := os'\<rparr>) cdfid p pth fl)
           else abort_tail s cdfid p pth fl))"

text \<open>
  \<open>ncclose\<close>: in define mode end the definition, and abort if that fails; in data
  mode flush a dirty writable file; then release the identifier. (\<open>hdf_close\<close>,
  the HDF layer's own close, is not modelled.) An undefined outcome of \<open>NC_endef\<close>
  is propagated.
\<close>

definition ncclose :: "codec \<Rightarrow> nc_state \<Rightarrow> int \<Rightarrow> int result" where
  "ncclose cg s cdfid =
     (case nc_check s cdfid of
        Inl e \<Rightarrow> (Inl e, s)
      | Inr (p, h) \<Rightarrow>
          if flag_set (flags h) NC_INDEF then
            (case NC_endef cg s cdfid p h of
               (Inl NC_UB, s') \<Rightarrow> (Inl NC_UB, s')
             | (Inl _, s') \<Rightarrow> ncabort cg s' cdfid
             | (Inr _, s') \<Rightarrow> release s' cdfid p id)
          else if flag_set (flags h) NC_RDWR then
            (let h1 = set_xop XDR_ENCODE h in
             case flush_dirty cg (sys s) h1 of
               None \<Rightarrow> (Inl NC_EXDR, put_h s p h1)
             | Some (os', h2) \<Rightarrow> release ((put_h s p h2)\<lparr>sys := os'\<rparr>) cdfid p id)
          else release s cdfid p id)"

text \<open>What \<open>NC_endef\<close> may change of the stash: neither its file nor its path.\<close>

definition stash_key :: "nc option \<Rightarrow> (nat \<times> string) option" where
  "stash_key st = map_option (\<lambda>n. (x_ino (xdrs n), path n)) st"

section \<open>Lemmas\<close>

lemma release_live:
  assumes "sess_inv s" "HNDLE (tbl s) cdfid = Some p"
  shows "release s cdfid p post =
         (Inr 0, s\<lparr>heap := (heap s)(p := None), sys := post (posix_close (sys s)),
                   tbl := retire_slot cdfid (tbl s)\<rparr>)"
proof -
  have "heap s p \<noteq> None" using sess_invD(2) [OF assms] .
  moreover have "slot_in_array (tbl s) cdfid"
    using slot_in_array_live [OF sess_invD(1) [OF assms(1)]] assms(2) by simp
  ultimately show ?thesis by (auto simp add: release_def NC_free_cdf_def)
qed

lemma ncclose_data_step:
  assumes inv: "sess_inv s" and chk: "nc_check s cdfid = Inr (p, h)"
    and dm: "\<not> flag_set (flags h) NC_INDEF" and r: "ncclose cg s cdfid = (Inr v, s')"
  shows "sess_inv s' \<and> HNDLE (tbl s') = (HNDLE (tbl s))(cdfid := None) \<and>
         heap s' = (heap s)(p := None) \<and> curr_opened (tbl s') = curr_opened (tbl s) - 1 \<and>
         open_fds (sys s') = open_fds (sys s) - 1"
proof -
  note C = nc_check_Inr [OF chk]
  have fds: "open_fds (posix_close os) = open_fds os - 1" for os by (simp add: posix_close_def)
  have dom_close: "dom (files (posix_close os)) = dom (files os)" for os by (simp add: posix_close_def)
  have fin: "sess_inv s1 \<Longrightarrow> HNDLE (tbl s1) cdfid = Some p \<Longrightarrow> heap s1 = (heap s)(p \<mapsto> g) \<Longrightarrow>
             open_fds (sys s1) = open_fds (sys s) \<Longrightarrow> tbl s1 = tbl s \<Longrightarrow>
             release s1 cdfid p id = (Inr v, s') \<Longrightarrow> ?thesis" for s1 g
  proof -
    assume i1: "sess_inv s1" and l1: "HNDLE (tbl s1) cdfid = Some p" and hp: "heap s1 = (heap s)(p \<mapsto> g)"
      and o1: "open_fds (sys s1) = open_fds (sys s)" and t1: "tbl s1 = tbl s"
      and r1: "release s1 cdfid p id = (Inr v, s')"
    have s': "s' = s1\<lparr>heap := (heap s1)(p := None), sys := id (posix_close (sys s1)),
                        tbl := retire_slot cdfid (tbl s1)\<rparr>"
      using r1 release_live [OF i1 l1, of id] by simp
    have "sess_inv s'"
      unfolding s' by (rule sess_inv_free_retire [OF i1 l1]) (simp_all add: fds dom_close sess_invD(7) [OF i1])
    then show ?thesis
      using s' hp o1 t1 HNDLE_retire [OF sess_invD(1) [OF i1]] l1 by (simp add: fds)
  qed
  show ?thesis
  proof (cases "flag_set (flags h) NC_RDWR")
    case True
    obtain os' h2 where f: "flush_dirty cg (sys s) (set_xop XDR_ENCODE h) = Some (os', h2)"
      and r2: "release ((put_h s p h2)\<lparr>sys := os'\<rparr>) cdfid p id = (Inr v, s')"
      using r chk dm True by (auto simp add: ncclose_def Let_def split: option.splits)
    note F = flush_dirty_writes [OF f]
    have x: "x_ino (xdrs h2) = x_ino (xdrs h)" using F by (auto simp add: set_xop_def)
    have i1: "sess_inv ((put_h s p h2)\<lparr>sys := os'\<rparr>)"
      using sess_inv_writes [OF sess_inv_put_h [OF inv _ x]] C F by (simp add: put_h_def)
    show ?thesis
      by (rule fin [OF i1 _ _ _ _ r2]) (use C writes_only_fields [of "sys s" os'] F in \<open>simp_all add: put_h_def\<close>)
  next
    case False
    then have r2: "release s cdfid p id = (Inr v, s')" using r chk dm by (simp add: ncclose_def)
    have hp: "heap s = (heap s)(p \<mapsto> h)" using C by auto
    show ?thesis by (rule fin [OF inv _ hp _ _ r2]) (use C in simp_all)
  qed
qed

lemma redef_flush_Inl:
  "redef_flush cg opts os h = Inl (os1, h1) \<Longrightarrow>
   writes_only os os1 \<and> x_ino (xdrs h1) = x_ino (xdrs h) \<and> path h1 = path h \<and>
   file_type h1 = file_type h \<and> vars h1 = vars h \<and> redefid h1 = redefid h \<and>
   (\<not> (flag_set opts NC_NOFILL \<and> flag_set (flags h) NC_NDIRTY) \<longrightarrow> os1 = os \<and> flags h1 = flags h)"
  by (auto simp add: redef_flush_def set_xop_def Let_def dest!: xdr_numrecs_writes split: if_splits option.splits)

lemma NC_dup_cdf_Inr:
  assumes "NC_dup_cdf os name NC_NOCLOBBER old = Inr (os', new)"
  shows "dir os name = None \<and> name \<noteq> [] \<and>
         os' = os\<lparr>dir := (dir os)(name \<mapsto> next_ino os), files := (files os)(next_ino os \<mapsto> []),
                  next_ino := Suc (next_ino os), open_fds := Suc (open_fds os)\<rparr> \<and>
         x_ino (xdrs new) = next_ino os \<and> path new = name \<and> flags new = flags old OR NC_INDEF \<and>
         redefid new = -1 \<and> vars new = vars old \<and> file_type new = file_type old"
  using assms by (auto simp add: NC_dup_cdf_def NCxdrfile_create_def posix_open_def new_file_def
                   split: if_splits option.splits sum.splits prod.splits)

text \<open>The shape of a successful redefinition of a netCDF file.\<close>

lemma ncredef_Inr_cases:
  assumes r: "ncredef cg s cdfid = (Inr v, s')" and chk: "nc_check s cdfid = Inr (p, h)"
    and ft: "file_type h \<noteq> HDF_FILE"
  obtains os1 h1 name seed' os2 new where
    "\<not> flag_set (flags h) NC_INDEF" "flag_set (flags h) NC_RDWR"
    "\<not> (first_free_id (tbl s) = ncdf (tbl s) \<and> ncdf (tbl s) \<ge> max_NC_open (tbl s))"
    "redef_flush cg (ncopts s) (sys s) h = Inl (os1, h1)"
    "NCtempname os1 (tn_seed s) (path h1) = (name, seed')"
    "NC_dup_cdf os1 name NC_NOCLOBBER h1 = Inr (os2, new)"
    "s' = s\<lparr>tbl := set_slot cdfid (Some (next_ptr s)) (install_slot (first_free_id (tbl s)) p (tbl s)),
            heap := (heap s)(p \<mapsto> h1\<lparr>flags := flags h1 OR NC_INDEF\<rparr>,
                    next_ptr s \<mapsto> new\<lparr>path := take FILENAME_MAX name, redefid := first_free_id (tbl s)\<rparr>),
            next_ptr := Suc (next_ptr s), sys := os2, tn_seed := seed'\<rparr>"
  using r chk ft
  by (auto simp add: ncredef_def Let_def put_h_def split: if_splits sum.splits prod.splits option.splits)

text \<open>Moving a live handle to a free identifier and putting a fresh one in its place.\<close>

lemma sess_inv_swap:
  assumes inv: "sess_inv s" and live: "HNDLE (tbl s) cdfid = Some p" and free: "HNDLE (tbl s) fid = None"
    and t: "tbl_inv t'" "HNDLE t' = (HNDLE (tbl s))(fid \<mapsto> p, cdfid \<mapsto> next_ptr s)"
    and hp: "heap s p = Some h" and x: "x_ino (xdrs h') = x_ino (xdrs h)"
    and os: "os_ok os'" "open_fds os' = Suc (open_fds (sys s))" "x_ino (xdrs new) \<in> dom (files os')"
      "dom (files (sys s)) \<subseteq> dom (files os')"
  shows "sess_inv (s\<lparr>tbl := t', heap := (heap s)(p \<mapsto> h', next_ptr s \<mapsto> new),
                     next_ptr := Suc (next_ptr s), sys := os', tn_seed := sd\<rparr>)" (is "sess_inv ?s")
proof -
  let ?n = "next_ptr s"
  have fresh: "heap s ?n = None" by (rule sess_inv_fresh [OF inv])
  have pn: "p \<noteq> ?n" using hp fresh by auto
  have old_n: "HNDLE (tbl s) i = Some q \<Longrightarrow> q \<noteq> ?n" for i q
    using sess_invD(2) [OF inv, of i q] fresh by (cases "q = ?n") auto
  have old_p: "HNDLE (tbl s) i = Some p \<Longrightarrow> i = cdfid" for i
    using sess_invD(3) [OF inv, of i p cdfid] live by simp
  have fc: "fid \<noteq> cdfid" using free live by auto
  show ?thesis
  proof (rule sess_invI)
    show "tbl_inv (tbl ?s)" using t(1) by simp
    show "heap ?s q \<noteq> None" if "HNDLE (tbl ?s) i = Some q" for i q
      using that t(2) sess_invD(2) [OF inv] by (auto split: if_splits)
    show "i = j" if "HNDLE (tbl ?s) i = Some q" "HNDLE (tbl ?s) j = Some q" for i j q
      using that t(2) fc pn old_n old_p sess_invD(3) [OF inv] by (auto split: if_splits)
    show "q < next_ptr ?s" if "heap ?s q \<noteq> None" for q
    proof -
      have "q = ?n \<or> heap s q \<noteq> None" using that hp by (auto split: if_splits)
      then show ?thesis using sess_invD(4) [OF inv, of q] by auto
    qed
    show "\<exists>i. HNDLE (tbl ?s) i = Some q" if "heap ?s q \<noteq> None" for q
    proof (cases "q = ?n \<or> q = p")
      case True
      then show ?thesis using t(2) fc by auto
    next
      case False
      then have "heap s q \<noteq> None" using that by simp
      then obtain i where i: "HNDLE (tbl s) i = Some q" using sess_invD(5) [OF inv] by blast
      have "i \<noteq> cdfid" "i \<noteq> fid" using i live free False by auto
      then show ?thesis using i t(2) by auto
    qed
    show "open_fds (sys ?s) = card (dom (heap ?s))"
      using os(2) sess_invD(6) [OF inv] sess_inv_finite [OF inv] fresh hp
      by (simp add: domIff insert_absorb domI)
    show "os_ok (sys ?s)" using os(1) by simp
    show "x_ino (xdrs g) \<in> dom (files (sys ?s))" if qg: "heap ?s q = Some g" for q g
    proof -
      consider "q = ?n" "g = new" | "q = p" "g = h'" | "q \<noteq> ?n" "q \<noteq> p" "heap s q = Some g"
        using qg pn by (auto split: if_splits)
      then show ?thesis
      proof cases
        case 2
        then show ?thesis using x sess_invD(8) [OF inv hp] os(4) by auto
      next
        case 3
        then show ?thesis using sess_invD(8) [OF inv, of q g] os(4) by auto
      qed (use os(3) in simp)
    qed
  qed
qed

lemma ncredef_step:
  assumes inv: "sess_inv s" and chk: "nc_check s cdfid = Inr (p, h)" and ft: "file_type h \<noteq> HDF_FILE"
    and r: "ncredef cg s cdfid = (Inr v, s')"
  shows "sess_inv s' \<and>
         HNDLE (tbl s') = (HNDLE (tbl s))(first_free_id (tbl s) \<mapsto> p, cdfid \<mapsto> next_ptr s) \<and>
         first_free_id (tbl s) \<notin> dom (HNDLE (tbl s)) \<and>
         (\<exists>h'. heap s' p = Some h' \<and> flag_set (flags h') NC_INDEF \<and> x_ino (xdrs h') = x_ino (xdrs h)) \<and>
         (\<exists>new. heap s' (next_ptr s) = Some new \<and> redefid new = first_free_id (tbl s) \<and>
                flag_set (flags new) NC_INDEF \<and> x_ino (xdrs new) \<notin> dom (files (sys s)))"
proof -
  let ?t = "tbl s" and ?fid = "first_free_id (tbl s)"
  obtain os1 h1 name seed' os2 new where
    full: "\<not> (?fid = ncdf ?t \<and> ncdf ?t \<ge> max_NC_open ?t)" and
    fl: "redef_flush cg (ncopts s) (sys s) h = Inl (os1, h1)" and
    dup: "NC_dup_cdf os1 name NC_NOCLOBBER h1 = Inr (os2, new)" and
    s': "s' = s\<lparr>tbl := set_slot cdfid (Some (next_ptr s)) (install_slot ?fid p ?t),
            heap := (heap s)(p \<mapsto> h1\<lparr>flags := flags h1 OR NC_INDEF\<rparr>,
                    next_ptr s \<mapsto> new\<lparr>path := take FILENAME_MAX name, redefid := ?fid\<rparr>),
            next_ptr := Suc (next_ptr s), sys := os2, tn_seed := seed'\<rparr>"
    using ncredef_Inr_cases [OF r chk ft] by metis
  note C = nc_check_Inr [OF chk]
  note ti = sess_invD(1) [OF inv]
  have alloc: "cdfs ?t \<noteq> None"
    using C HNDLE_range [of ?t cdfid] ti by (auto simp add: tbl_inv_def split: option.splits)
  have m: "ncdf ?t \<le> max_NC_open ?t" using ti by (simp add: tbl_inv_def)
  have cap: "?fid < max_NC_open ?t" using full first_free_id_bounds [OF ti] m by linarith
  have free: "HNDLE ?t ?fid = None" using first_free_id_dom [OF ti] by auto
  have t1: "tbl_inv (install_slot ?fid p ?t)" "HNDLE (install_slot ?fid p ?t) = (HNDLE ?t)(?fid \<mapsto> p)"
    using install_slot_inv [OF ti alloc refl cap] HNDLE_install [OF ti alloc refl cap] by auto
  have live1: "HNDLE (install_slot ?fid p ?t) cdfid \<noteq> None" using t1(2) C by auto
  note t2 = set_slot_live [OF t1(1) live1, of "next_ptr s"]
  note F = redef_flush_Inl [OF fl]
  note D = NC_dup_cdf_Inr [OF dup]
  have ok1: "os_ok os1" using writes_only_os_ok [of "sys s" os1] F sess_invD(7) [OF inv] by simp
  note W = writes_only_fields [of "sys s" os1]
  have fresh: "next_ino os1 \<notin> dom (files (sys s))"
    using sess_invD(7) [OF inv] F W by (auto simp add: os_ok_def)
  have "sess_inv s'"
    unfolding s'
  proof (rule sess_inv_swap [OF inv _ free])
    show "os_ok os2" using D os_ok_new_file [OF ok1, where p = name and d = "[]"] by simp
  qed (use C t1 t2 F D W in \<open>auto simp add: set_xop_def\<close>)
  moreover have "HNDLE (tbl s') = (HNDLE ?t)(?fid \<mapsto> p, cdfid \<mapsto> next_ptr s)"
    using s' t1(2) t2 by simp
  moreover have "?fid \<notin> dom (HNDLE ?t)" using free by auto
  moreover have "flag_set (flags h1 OR NC_INDEF) NC_INDEF" by (simp add: flag_set_def word_ao_absorbs)
  moreover have "heap s' p = Some (h1\<lparr>flags := flags h1 OR NC_INDEF\<rparr>)"
    using s' sess_inv_fresh [OF inv] C by auto
  moreover have "heap s' (next_ptr s) = Some (new\<lparr>path := take FILENAME_MAX name, redefid := ?fid\<rparr>)"
    using s' by simp
  ultimately show ?thesis using F D fresh by auto
qed

lemma ncclose_plain:
  assumes inv: "sess_inv s" and chk: "nc_check s cdfid = Inr (p, h)"
    and m: "\<not> flag_set (flags h) NC_INDEF" "\<not> flag_set (flags h) NC_RDWR"
  shows "ncclose cg s cdfid = (Inr 0, s\<lparr>heap := (heap s)(p := None), sys := posix_close (sys s),
                                       tbl := retire_slot cdfid (tbl s)\<rparr>)"
  using release_live [OF inv nc_check_Inr [OF chk, THEN conjunct1], of id] chk m
  by (simp add: ncclose_def)

lemma ncclose_clean:
  assumes inv: "sess_inv s" and chk: "nc_check s cdfid = Inr (p, h)"
    and m: "\<not> flag_set (flags h) NC_INDEF" "\<not> flag_set (flags h) NC_HDIRTY" "\<not> flag_set (flags h) NC_NDIRTY"
  shows "ncclose cg s cdfid = (Inr 0, s\<lparr>heap := (heap s)(p := None), sys := posix_close (sys s),
                                       tbl := retire_slot cdfid (tbl s)\<rparr>)"
proof (cases "flag_set (flags h) NC_RDWR")
  case False
  then show ?thesis using ncclose_plain [OF inv chk m(1)] by simp
next
  case True
  have fl: "flags (set_xop XDR_ENCODE h) = flags h" by (simp add: set_xop_def)
  have sl: "slot_in_array (tbl s) cdfid"
    using slot_in_array_live [OF sess_invD(1) [OF inv]] nc_check_Inr [OF chk] by simp
  show ?thesis using True chk m sl
    by (simp add: ncclose_def flush_dirty_def fl release_def NC_free_cdf_def put_h_def Let_def)
qed

lemma ncclose_data_tbl:
  assumes chk: "nc_check s cdfid = Inr (p, h)" and dm: "\<not> flag_set (flags h) NC_INDEF"
    and r: "ncclose cg s cdfid = (Inr v, s')"
  shows "tbl s' = retire_slot cdfid (tbl s)"
  using chk dm r
  by (auto simp add: ncclose_def release_def NC_free_cdf_def put_h_def Let_def
           split: if_splits option.splits sum.splits prod.splits)

lemma NCtempname_seed_ok:
  "NCtempname os sd proto = (name, sd') \<Longrightarrow> tn_seed_ok sd \<Longrightarrow> tn_seed_ok sd'"
  using NCtempname_seed [of os sd proto] by (simp add: tn_seed_ok_next)

lemma release_seed: "release s cdfid p post = (r, s') \<Longrightarrow> tn_seed s' = tn_seed s"
  by (auto simp add: release_def NC_free_cdf_def split: option.splits sum.splits if_splits)

lemma abort_tail_seed: "abort_tail s cdfid p pth fl = (r, s') \<Longrightarrow> tn_seed s' = tn_seed s"
  by (auto simp add: abort_tail_def dest: release_seed split: option.splits)

lemma ncabort_seed: "ncabort cg s cdfid = (r, s') \<Longrightarrow> tn_seed s' = tn_seed s"
  by (auto simp add: ncabort_def Let_def NC_free_cdf_def dest!: abort_tail_seed
           split: sum.splits option.splits prod.splits if_splits)

lemma ncclose_data_seed:
  "nc_check s cdfid = Inr (p, h) \<Longrightarrow> \<not> flag_set (flags h) NC_INDEF \<Longrightarrow>
   ncclose cg s cdfid = (r, s') \<Longrightarrow> tn_seed s' = tn_seed s"
  by (auto simp add: ncclose_def Let_def dest!: release_seed split: option.splits prod.splits if_splits)

lemma ncredef_seed:
  "ncredef cg s cdfid = (r, s') \<Longrightarrow> tn_seed_ok (tn_seed s) \<Longrightarrow> tn_seed_ok (tn_seed s')"
  by (auto simp add: ncredef_def Let_def dest: NCtempname_seed_ok
           split: sum.splits option.splits prod.splits if_splits)


section \<open>What NC_endef writes\<close>

lemma vcp_frame:
  "vcp old ii os x = (ok, os', x', old') \<Longrightarrow> frame_at (x_ino x) os os' \<and> x_ino x' = x_ino x"
  by (auto simp add: vcp_def NC_vcpy_def Let_def dest!: NC_dcpy_frame split: option.splits prod.splits)

lemma rcp_frame:
  "rcp jj old ii os x = (ok, os', x', old') \<Longrightarrow> frame_at (x_ino x) os os' \<and> x_ino x' = x_ino x"
  by (auto simp add: rcp_def NC_reccpy_def Let_def dest!: NC_dcpy_frame split: option.splits prod.splits)

lemma endef_fill_frame:
  "endef_fill cg fl st v os x = (r, os', x', st') \<Longrightarrow> frame_at (x_ino x) os os' \<and> x_ino x' = x_ino x"
  by (auto simp add: endef_fill_def xdr_NC_fill_def dest!: h4_xdr_putbytes_frame split: if_splits option.splits)

lemma endef_var_frame:
  assumes cp: "\<And>old ii os x ok os' x' old'. cp old ii os x = (ok, os', x', old') \<Longrightarrow>
                 frame_at (x_ino x) os os' \<and> x_ino x' = x_ino x"
    and r: "endef_var cg fl cp st ii v os x = (r, os', x', st')"
  shows "frame_at (x_ino x) os os' \<and> x_ino x' = x_ino x"
  using r by (auto simp add: endef_var_def dest: endef_fill_frame cp split: if_splits option.splits prod.splits)

lemma endef_vars_Cons_step:
  "IS_RECVAR v = want \<Longrightarrow> endef_var cg fl cp st ii v os x = (r1, os1, x1, st1) \<Longrightarrow>
   endef_vars cg fl cp want st ii (v # vs) os x =
     (case r1 of Inl _ \<Rightarrow> (r1, os1, x1, st1) | Inr _ \<Rightarrow> endef_vars cg fl cp want st1 (Suc ii) vs os1 x1)"
  by (cases r1) simp_all

lemma endef_recs_Suc_step:
  "endef_vars cg fl (rcp jj) True st 0 vs os x = (r1, os1, x1, st1) \<Longrightarrow>
   endef_recs cg fl st vs jj (Suc k) os x =
     (case r1 of Inl _ \<Rightarrow> (r1, os1, x1, st1) | Inr _ \<Rightarrow> endef_recs cg fl st1 vs (Suc jj) k os1 x1)"
  by (cases r1) simp_all

lemma endef_vars_frame:
  assumes cp: "\<And>old ii os x ok os' x' old'. cp old ii os x = (ok, os', x', old') \<Longrightarrow>
                 frame_at (x_ino x) os os' \<and> x_ino x' = x_ino x"
  shows "endef_vars cg fl cp want st ii vs os x = (r, os', x', st') \<Longrightarrow>
         frame_at (x_ino x) os os' \<and> x_ino x' = x_ino x"
proof (induction vs arbitrary: st ii os x)
  case (Cons v vs)
  show ?case
  proof (cases "IS_RECVAR v = want")
    case False
    then have "endef_vars cg fl cp want st (Suc ii) vs os x = (r, os', x', st')" using Cons.prems by simp
    then show ?thesis by (rule Cons.IH)
  next
    case True
    obtain r1 os1 x1 st1 where e: "endef_var cg fl cp st ii v os x = (r1, os1, x1, st1)"
      by (cases "endef_var cg fl cp st ii v os x") auto
    note E = endef_var_frame [OF cp e]
    note S = Cons.prems [unfolded endef_vars_Cons_step [OF True e]]
    show ?thesis
    proof (cases r1)
      case (Inl a)
      then show ?thesis using S E by simp
    next
      case (Inr u)
      then have "endef_vars cg fl cp want st1 (Suc ii) vs os1 x1 = (r, os', x', st')" using S by simp
      then have "frame_at (x_ino x1) os1 os' \<and> x_ino x' = x_ino x1" by (rule Cons.IH)
      then show ?thesis using E frame_at_trans [of "x_ino x" os os1 os'] by simp
    qed
  qed
qed simp

lemma endef_recs_frame:
  "endef_recs cg fl st vs jj k os x = (r, os', x', st') \<Longrightarrow> frame_at (x_ino x) os os' \<and> x_ino x' = x_ino x"
proof (induction k arbitrary: st jj os x)
  case (Suc k)
  obtain r1 os1 x1 st1 where e: "endef_vars cg fl (rcp jj) True st 0 vs os x = (r1, os1, x1, st1)"
    by (cases "endef_vars cg fl (rcp jj) True st 0 vs os x") auto
  note E = endef_vars_frame [OF rcp_frame e]
  note S = Suc.prems [unfolded endef_recs_Suc_step [OF e]]
  show ?case
  proof (cases r1)
    case (Inl a)
    then show ?thesis using S E by simp
  next
    case (Inr u)
    then have "endef_recs cg fl st1 vs (Suc jj) k os1 x1 = (r, os', x', st')" using S by simp
    then have "frame_at (x_ino x1) os1 os' \<and> x_ino x' = x_ino x1" by (rule Suc.IH)
    then show ?thesis using E frame_at_trans [of "x_ino x" os os1 os'] by simp
  qed
qed simp

lemma endef_commit_files:
  "endef_commit s cdfid p stp h old = (r, s') \<Longrightarrow> files (sys s') = files (sys s)"
  by (auto simp add: endef_commit_def posix_rename_def NC_free_cdf_def posix_close_def put_h_def Let_def
           split: if_splits option.splits sum.splits)

lemma stash_put_sys [simp]: "sys (stash_put s q st) = sys s"
  by (simp add: stash_put_def put_h_def split: option.splits)

lemma NC_endef_frame:
  assumes r: "NC_endef cg s cdfid p h = (r, s')"
  shows "\<exists>os. frame_at (x_ino (xdrs h)) (sys s) os \<and> files (sys s') = files os"
proof -
  let ?i = "x_ino (xdrs h)"
  let ?h1 = "set_xop XDR_ENCODE (if file_type h \<noteq> HDF_FILE then NC_begins (c_xlen cg h) h else h)"
  let ?stp = "HNDLE (tbl s) (redefid h)"
  let ?st = "case ?stp of None \<Rightarrow> None | Some q \<Rightarrow> heap s q"
  have x1: "x_ino (xdrs ?h1) = ?i" by (simp add: set_xop_def)
  show ?thesis
  proof (cases "xdr_cdf_encode cg (sys s) ?h1")
    case None
    then have "s' = put_h s p ?h1" using r by (simp add: NC_endef_def Let_def)
    then show ?thesis by (intro exI [of _ "sys s"]) (simp add: put_h_def)
  next
    case (Some a)
    obtain os1 h2 where a: "a = (os1, h2)" by fastforce
    note E = xdr_cdf_encode_at [OF Some [unfolded a]]
    have F1: "frame_at ?i (sys s) os1" "x_ino (xdrs h2) = ?i" using E x1 by auto
    show ?thesis
    proof (cases "file_type h2 = HDF_FILE \<or> vars h2 = None")
      case True
      then have "sys s' = os1" using r Some a by (auto simp add: NC_endef_def Let_def put_h_def split: option.splits)
      then show ?thesis using F1 by auto
    next
      case False
      then obtain vs where vs: "vars h2 = Some vs" "file_type h2 \<noteq> HDF_FILE" by auto
      obtain ra os2 x2 st2 where e2: "endef_vars cg (flags h2) vcp False ?st 0 vs os1 (xdrs h2) = (ra, os2, x2, st2)"
        by (metis prod_cases4)
      note F2 = endef_vars_frame [OF vcp_frame e2]
      have f2: "frame_at ?i (sys s) os2" using F1 F2 frame_at_trans [of ?i "sys s" os1 os2] by simp
      show ?thesis
      proof (cases "\<exists>e. ra = Inl e \<or> flag_set (flags h2) NC_CREAT \<or> st2 = None")
        case True
        then have "sys s' = os2" using r Some a vs e2
          by (auto simp add: NC_endef_def Let_def put_h_def split: sum.splits option.splits if_splits)
        then show ?thesis using f2 by auto
      next
        case False
        then obtain old where old: "ra = Inr ()" "\<not> flag_set (flags h2) NC_CREAT" "st2 = Some old"
          by (cases ra) auto
        obtain rb os3 x3 st3 where e3: "endef_recs cg (flags h2) st2 vs 0 (unat (numrecs old)) os2 x2 = (rb, os3, x3, st3)"
          by (metis prod_cases4)
        note F3 = endef_recs_frame [OF e3]
        have f3: "frame_at ?i (sys s) os3" using f2 F2 F3 F1 frame_at_trans [of ?i "sys s" os2 os3] by simp
        show ?thesis
        proof (cases "\<exists>e. rb = Inl e \<or> st3 = None")
          case True
          then have "sys s' = os3" using r Some a vs e2 old e3
            by (auto simp add: NC_endef_def Let_def put_h_def split: sum.splits option.splits if_splits)
          then show ?thesis using f3 by auto
        next
          case False
          then obtain old3 where old3: "rb = Inr ()" "st3 = Some old3" by (cases rb) auto
          let ?h3 = "h2\<lparr>xdrs := x3, numrecs := numrecs old3\<rparr>"
          show ?thesis
          proof (cases "xdr_numrecs cg os3 ?h3")
            case None
            then have "sys s' = os3" using r Some a vs e2 old e3 old3
              by (auto simp add: NC_endef_def Let_def put_h_def)
            then show ?thesis using f3 by auto
          next
            case (Some b)
            obtain os4 h4 where b: "b = (os4, h4)" by fastforce
            note F4 = xdr_numrecs_at [OF Some [unfolded b]]
            have f4: "frame_at ?i (sys s) os4" using f3 F4 F3 F2 F1 frame_at_trans [of ?i "sys s" os3 os4] by simp
            have "endef_commit ((stash_put (put_h s p h4) ?stp (Some old3))\<lparr>sys := os4\<rparr>) cdfid p ?stp h4 old3 = (r, s')"
              using r \<open>xdr_cdf_encode _ _ _ = Some a\<close> a vs e2 old e3 old3 Some b
              by (simp add: NC_endef_def Let_def)
            then have "files (sys s') = files os4" using endef_commit_files by fastforce
            then show ?thesis using f4 by auto
          qed
        qed
      qed
    qed
  qed
qed

lemma vcp_src: "vcp old ii os x = (ok, os', x', old') \<Longrightarrow> x_ino (xdrs old') = x_ino (xdrs old) \<and> path old' = path old"
  by (auto simp add: vcp_def NC_vcpy_def Let_def h4_xdr_setpos_def dest!: NC_dcpy_source
           split: option.splits prod.splits if_splits)

lemma rcp_src: "rcp jj old ii os x = (ok, os', x', old') \<Longrightarrow> x_ino (xdrs old') = x_ino (xdrs old) \<and> path old' = path old"
  by (auto simp add: rcp_def NC_reccpy_def Let_def h4_xdr_setpos_def dest!: NC_dcpy_source
           split: option.splits prod.splits if_splits)

lemma endef_var_stash:
  assumes cp: "\<And>old ii os x ok os' x' old'. cp old ii os x = (ok, os', x', old') \<Longrightarrow>
                 x_ino (xdrs old') = x_ino (xdrs old) \<and> path old' = path old"
    and r: "endef_var cg fl cp st ii v os x = (r, os', x', st')"
  shows "stash_key st' = stash_key st"
  using r by (auto simp add: endef_var_def endef_fill_def stash_key_def dest: cp
                   split: if_splits option.splits prod.splits)

lemma endef_vars_stash:
  assumes cp: "\<And>old ii os x ok os' x' old'. cp old ii os x = (ok, os', x', old') \<Longrightarrow>
                 x_ino (xdrs old') = x_ino (xdrs old) \<and> path old' = path old"
  shows "endef_vars cg fl cp want st ii vs os x = (r, os', x', st') \<Longrightarrow> stash_key st' = stash_key st"
proof (induction vs arbitrary: st ii os x)
  case (Cons v vs)
  show ?case
  proof (cases "IS_RECVAR v = want")
    case False
    then show ?thesis using Cons by simp
  next
    case True
    obtain r1 os1 x1 st1 where e: "endef_var cg fl cp st ii v os x = (r1, os1, x1, st1)"
      by (cases "endef_var cg fl cp st ii v os x") auto
    note E = endef_var_stash [OF cp e]
    note S = Cons.prems [unfolded endef_vars_Cons_step [OF True e]]
    show ?thesis
    proof (cases r1)
      case (Inl a)
      then show ?thesis using S E by simp
    next
      case (Inr u)
      then show ?thesis using S E Cons.IH [of st1 "Suc ii" os1 x1] by simp
    qed
  qed
qed simp

lemma endef_recs_stash:
  "endef_recs cg fl st vs jj k os x = (r, os', x', st') \<Longrightarrow> stash_key st' = stash_key st"
proof (induction k arbitrary: st jj os x)
  case (Suc k)
  obtain r1 os1 x1 st1 where e: "endef_vars cg fl (rcp jj) True st 0 vs os x = (r1, os1, x1, st1)"
    by (cases "endef_vars cg fl (rcp jj) True st 0 vs os x") auto
  note E = endef_vars_stash [OF rcp_src e]
  note S = Suc.prems [unfolded endef_recs_Suc_step [OF e]]
  show ?case
  proof (cases r1)
    case (Inl a)
    then show ?thesis using S E by simp
  next
    case (Inr u)
    then show ?thesis using S E Suc.IH [of st1 "Suc jj" os1 x1] by simp
  qed
qed simp

lemma endef_vars_vcp:
  assumes "endef_vars cg fl vcp want st ii vs os x = (r, os', x', st')"
  shows "frame_at (x_ino x) os os' \<and> x_ino x' = x_ino x \<and> stash_key st' = stash_key st"
proof -
  have "frame_at (x_ino x) os os' \<and> x_ino x' = x_ino x"
    by (rule endef_vars_frame [OF _ assms]) (rule vcp_frame)
  moreover have "stash_key st' = stash_key st"
    by (rule endef_vars_stash [OF _ assms]) (rule vcp_src)
  ultimately show ?thesis by blast
qed

lemma frame_at_writes: "frame_at i os os' \<Longrightarrow> writes_only os os'"
  by (simp add: frame_at_def)

lemma endef_commit_Inr:
  assumes "endef_commit s cdfid p stp h old = (Inr v, s')"
  shows "\<exists>os5 s''. posix_rename (sys s) (path h) (path old) = Inr os5 \<and>
           NC_free_cdf ((put_h s p (h\<lparr>path := take FILENAME_MAX (path old)\<rparr>))\<lparr>sys := os5\<rparr>) stp = Inr s'' \<and>
           slot_in_array (tbl s'') (redefid h) \<and>
           s' = (put_h s'' p (clear_modes (h\<lparr>path := take FILENAME_MAX (path old), redefid := -1\<rparr>)))
                  \<lparr>tbl := retire_slot (redefid h) (tbl s'')\<rparr>"
  using assms by (auto simp add: endef_commit_def Let_def split: sum.splits if_splits)

lemma NC_endef_Inr_cases:
  assumes r: "NC_endef cg s cdfid p h = (Inr v, s')"
  obtains (plain) h' os' where "s' = (put_h s p h')\<lparr>sys := os'\<rparr>" "writes_only (sys s) os'"
      "x_ino (xdrs h') = x_ino (xdrs h)"
      "file_type h = HDF_FILE \<or> vars h = None \<or> flag_set (flags h) NC_CREAT"
  | (committed) q old h4 os4 os5 where "HNDLE (tbl s) (redefid h) = Some q" "heap s q = Some old"
      "writes_only (sys s) os4" "x_ino (xdrs h4) = x_ino (xdrs h)" "redefid h4 = redefid h"
      "path h4 = path h"
      "posix_rename os4 (path h4) (path old) = Inr os5" "slot_in_array (tbl s) (redefid h)"
      "s' = s\<lparr>heap := ((heap s)(q := None))(p \<mapsto> clear_modes (h4\<lparr>path := take FILENAME_MAX (path old), redefid := -1\<rparr>)),
              sys := posix_close os5, tbl := retire_slot (redefid h) (tbl s)\<rparr>"
proof -
  let ?i = "x_ino (xdrs h)"
  let ?h1 = "set_xop XDR_ENCODE (if file_type h \<noteq> HDF_FILE then NC_begins (c_xlen cg h) h else h)"
  let ?stp = "HNDLE (tbl s) (redefid h)"
  let ?st = "case ?stp of None \<Rightarrow> None | Some q \<Rightarrow> heap s q"
  have x1: "x_ino (xdrs ?h1) = ?i" "redefid ?h1 = redefid h" by (simp_all add: set_xop_def)
  obtain os1 h2 where enc: "xdr_cdf_encode cg (sys s) ?h1 = Some (os1, h2)"
    using r by (auto simp add: NC_endef_def Let_def split: option.splits)
  obtain x' where h2: "h2 = ?h1\<lparr>xdrs := x'\<rparr>" "x_ino x' = x_ino (xdrs ?h1)" "writes_only (sys s) os1"
    using xdr_cdf_encode_writes [OF enc] by blast
  have F1: "writes_only (sys s) os1" "x_ino (xdrs h2) = ?i" "redefid h2 = redefid h"
    "path h2 = path h" "file_type h2 = file_type h" "flags h2 = flags h"
    "vars h2 = None \<longleftrightarrow> vars h = None"
    using h2 x1 by (simp_all add: set_xop_def NC_begins_def split: option.splits prod.splits)
  show ?thesis
  proof (cases "file_type h2 = HDF_FILE \<or> vars h2 = None")
    case True
    then have "s' = (put_h s p (clear_modes h2))\<lparr>sys := os1\<rparr>"
      using r enc by (auto simp add: NC_endef_def Let_def split: option.splits)
    then show ?thesis
      by (intro plain [where h' = "clear_modes h2" and os' = os1]) (use F1 True in \<open>auto simp add: clear_modes_def\<close>)
  next
    case False
    then obtain vs where vs: "vars h2 = Some vs" "file_type h2 \<noteq> HDF_FILE" by auto
    obtain ra os2 x2 st2 where e2: "endef_vars cg (flags h2) vcp False ?st 0 vs os1 (xdrs h2) = (ra, os2, x2, st2)"
      by (metis prod_cases4)
    note F2 = endef_vars_vcp [OF e2]
    note K2 = conjunct2 [OF conjunct2 [OF F2]]
    have w2: "writes_only (sys s) os2" using F1 F2 frame_at_writes writes_only_trans by blast
    obtain u where ra: "ra = Inr u" using r enc vs e2 by (cases ra) (auto simp add: NC_endef_def Let_def)
    show ?thesis
    proof (cases "flag_set (flags h2) NC_CREAT")
      case True
      then have "s' = (put_h s p (clear_modes (h2\<lparr>xdrs := x2\<rparr>)))\<lparr>sys := os2\<rparr>"
        using r enc vs e2 ra by (simp add: NC_endef_def Let_def)
      then show ?thesis
        by (intro plain [where h' = "clear_modes (h2\<lparr>xdrs := x2\<rparr>)" and os' = os2])
           (use w2 F1 F2 True in \<open>auto simp add: clear_modes_def\<close>)
    next
      case nc: False
      obtain old where old: "st2 = Some old"
        using r enc vs e2 ra nc by (cases st2) (auto simp add: NC_endef_def Let_def)
      obtain rb os3 x3 st3 where e3: "endef_recs cg (flags h2) st2 vs 0 (unat (numrecs old)) os2 x2 = (rb, os3, x3, st3)"
        by (metis prod_cases4)
      note F3 = endef_recs_frame [OF e3]
      note K3 = endef_recs_stash [OF e3]
      have w3: "writes_only (sys s) os3" using w2 F3 frame_at_writes writes_only_trans by blast
      obtain u3 old3 where rb: "rb = Inr u3" "st3 = Some old3"
        using r enc vs e2 ra nc old e3 by (cases rb; cases st3) (auto simp add: NC_endef_def Let_def)
      obtain q where q1: "?stp = Some q" using K2 old by (cases ?stp) (auto simp add: stash_key_def)
      obtain old0 where q2: "heap s q = Some old0"
        using K2 old q1 by (cases "heap s q") (auto simp add: stash_key_def)
      note q = q1 q2
      have k: "path old3 = path old0"
        using K2 K3 old rb(2) q by (simp add: stash_key_def)
      let ?h3 = "h2\<lparr>xdrs := x3, numrecs := numrecs old3\<rparr>"
      obtain os4 h4 where nr: "xdr_numrecs cg os3 ?h3 = Some (os4, h4)"
        using r enc vs e2 ra nc old e3 rb by (auto simp add: NC_endef_def Let_def split: option.splits)
      obtain x4 where h4: "h4 = ?h3\<lparr>xdrs := x4\<rparr>" "x_ino x4 = x_ino (xdrs ?h3)" "writes_only os3 os4"
        using xdr_numrecs_writes [OF nr] by blast
      have H4: "writes_only (sys s) os4" "x_ino (xdrs h4) = ?i" "redefid h4 = redefid h" "path h4 = path h"
        using w3 h4 F3 F2 F1 writes_only_trans by auto
      have c: "endef_commit ((stash_put (put_h s p h4) ?stp (Some old3))\<lparr>sys := os4\<rparr>) cdfid p ?stp h4 old3 = (Inr v, s')"
        using r enc vs e2 ra nc old e3 rb nr by (simp add: NC_endef_def Let_def)
      obtain os5 s'' where c5: "posix_rename os4 (path h4) (path old0) = Inr os5"
        "NC_free_cdf ((put_h ((stash_put (put_h s p h4) (Some q) (Some old3))\<lparr>sys := os4\<rparr>) p
                        (h4\<lparr>path := take FILENAME_MAX (path old0)\<rparr>))\<lparr>sys := os5\<rparr>) (Some q) = Inr s''"
        "slot_in_array (tbl s'') (redefid h4)"
        "s' = (put_h s'' p (clear_modes (h4\<lparr>path := take FILENAME_MAX (path old0), redefid := -1\<rparr>)))
                \<lparr>tbl := retire_slot (redefid h4) (tbl s'')\<rparr>"
        using endef_commit_Inr [OF c] q(1) k by auto
      have s'': "s'' = s\<lparr>heap := ((heap s)(p \<mapsto> h4, q \<mapsto> old3, p \<mapsto> h4\<lparr>path := take FILENAME_MAX (path old0)\<rparr>))(q := None),
                         sys := posix_close os5\<rparr>"
        using c5(2) by (auto simp add: NC_free_cdf_def stash_put_def put_h_def split: if_splits)
      show ?thesis
      proof (rule committed [OF q(1) q(2) H4 c5(1)])
        show "slot_in_array (tbl s) (redefid h)" using c5(3) s'' H4 by simp
        show "s' = s\<lparr>heap := ((heap s)(q := None))(p \<mapsto> clear_modes (h4\<lparr>path := take FILENAME_MAX (path old0), redefid := -1\<rparr>)),
              sys := posix_close os5, tbl := retire_slot (redefid h) (tbl s)\<rparr>"
          using c5(4) s'' H4 by (auto simp add: put_h_def fun_upd_twist intro!: ext)
      qed
    qed
  qed
qed

lemma NC_endef_Inr_inv:
  assumes inv: "sess_inv s" and chk: "nc_check s cdfid = Inr (p, h)" and ne: "redefid h \<noteq> cdfid"
    and r: "NC_endef cg s cdfid p h = (Inr v, s')"
  shows "sess_inv s'"
  using r
proof (cases rule: NC_endef_Inr_cases)
  case (plain h' os')
  then show ?thesis using sess_inv_put_sys [OF inv conjunct2 [OF nc_check_Inr [OF chk]]] by simp
next
  case (committed q old h4 os4 os5)
  note C = nc_check_Inr [OF chk]
  have pq: "p \<noteq> q" using sess_invD(3) [OF inv, of cdfid p "redefid h"] C committed(1) ne by auto
  have i4: "sess_inv (s\<lparr>sys := os4\<rparr>)" by (rule sess_inv_writes [OF inv committed(3)])
  note R = posix_rename_ok [OF committed(7) sess_invD(7) [OF i4, simplified]]
  have "sess_inv (s\<lparr>tbl := tbl s, sys := os5\<rparr>)"
    using sess_inv_tbl_sys [OF i4, of "tbl s" os5] sess_invD(1) [OF inv] R by simp
  then have i5: "sess_inv (s\<lparr>sys := os5\<rparr>)" by simp
  let ?hf = "clear_modes (h4\<lparr>path := take FILENAME_MAX (path old), redefid := -1\<rparr>)"
  have "sess_inv (put_h (s\<lparr>sys := os5\<rparr>) p ?hf)"
    by (rule sess_inv_put_h [OF i5, of p h]) (use C committed(4) in \<open>simp_all add: clear_modes_def\<close>)
  moreover have "put_h (s\<lparr>sys := os5\<rparr>) p ?hf = s\<lparr>heap := (heap s)(p \<mapsto> ?hf), sys := os5\<rparr>"
    by (simp add: put_h_def)
  ultimately have i6: "sess_inv (s\<lparr>heap := (heap s)(p \<mapsto> ?hf), sys := os5\<rparr>)" by simp
  have "sess_inv ((s\<lparr>heap := (heap s)(p \<mapsto> ?hf), sys := os5\<rparr>)
          \<lparr>heap := ((heap s)(p \<mapsto> ?hf))(q := None), sys := id (posix_close os5),
           tbl := retire_slot (redefid h) (tbl s)\<rparr>)"
    using sess_inv_free_retire [OF i6, of "redefid h" q id] committed(1) sess_invD(7) [OF i6] R
    by (simp add: posix_close_def)
  then show ?thesis using committed(9) pq by (simp add: fun_upd_twist)
qed

lemma clear_modes_flags:
  "flags (clear_modes h) = flags h AND NOT (NC_CREAT OR NC_INDEF OR NC_NDIRTY OR NC_HDIRTY)"
  by (simp add: clear_modes_def)

lemma clear_modes_data_mode: "\<not> flag_set (flags (clear_modes h)) NC_INDEF \<and> \<not> flag_set (flags (clear_modes h)) NC_CREAT"
  unfolding clear_modes_flags by (simp only: flag_set_clear) (simp add: flag_simps)


lemma ncendef_Inr:
  "nc_check s cdfid = Inr (p, h) \<Longrightarrow> ncendef cg s cdfid = (Inr v, s') \<Longrightarrow> NC_endef cg s cdfid p h = (Inr v, s')"
  by (auto simp add: ncendef_def split: option.splits bool.splits)

lemma NC_endef_Inr_seed: "NC_endef cg s cdfid p h = (Inr v, s') \<Longrightarrow> tn_seed s' = tn_seed s"
  by (erule NC_endef_Inr_cases) (simp_all add: put_h_def)

lemma ncabort_redef:
  assumes inv: "sess_inv s" and chk: "nc_check s cdfid = Inr (q, hn)"
    and fl: "flag_set (flags hn) NC_INDEF" "\<not> flag_set (flags hn) NC_CREAT"
    and st: "HNDLE (tbl s) (redefid hn) = Some p" and ne: "redefid hn \<noteq> cdfid"
    and ft: "file_type hn = netCDF_FILE"
  shows "ncabort cg s cdfid =
           (Inr 0, s\<lparr>heap := ((heap s)(p := None))(q := None),
                     sys := remove_quiet (take FILENAME_MAX (path hn)) (posix_close (posix_close (sys s))),
                     tbl := retire_slot cdfid (retire_slot (redefid hn) (tbl s))\<rparr>) \<and>
         HNDLE (retire_slot cdfid (retire_slot (redefid hn) (tbl s))) =
           ((HNDLE (tbl s))(redefid hn := None))(cdfid := None)"
proof -
  note C = nc_check_Inr [OF chk]
  note ti = sess_invD(1) [OF inv]
  let ?i = "redefid hn" and ?pth = "take FILENAME_MAX (path hn)"
  have pq: "p \<noteq> q" using sess_invD(3) [OF inv, of ?i q cdfid] C st ne by auto
  have hp: "heap s p \<noteq> None" using sess_invD(2) [OF inv st] .
  have sa: "slot_in_array (tbl s) ?i" using slot_in_array_live [OF ti] st by simp
  let ?t1 = "retire_slot ?i (tbl s)"
  have t1: "tbl_inv ?t1" "HNDLE ?t1 = (HNDLE (tbl s))(?i := None)"
    using retire_slot_inv [OF ti] HNDLE_retire [OF ti] st by auto
  have live2: "HNDLE ?t1 cdfid = Some q" using t1(2) C ne by simp
  have sa2: "slot_in_array ?t1 cdfid" using slot_in_array_live [OF t1(1)] live2 by simp
  have ind: "flag_set (flags hn) (NC_INDEF OR NC_CREAT)"
    using fl(1) by (rule flag_set_sub) simp
  have "ncabort cg s cdfid =
          (Inr 0, s\<lparr>heap := ((heap s)(p := None))(q := None),
                    sys := remove_quiet ?pth (posix_close (posix_close (sys s))), tbl := retire_slot cdfid ?t1\<rparr>)"
    using chk fl st hp pq sa sa2 ind ft C
    by (auto simp add: ncabort_def NC_free_cdf_def abort_tail_def release_def put_h_def abort_removes_def
             posix_close_def fun_upd_twist)
  moreover have "HNDLE (retire_slot cdfid ?t1) = ((HNDLE (tbl s))(?i := None))(cdfid := None)"
    using HNDLE_retire [OF t1(1)] live2 t1(2) by simp
  ultimately show ?thesis by simp
qed

lemma remove_quiet_fields [simp]:
  "files (remove_quiet pth os) = files os" "dir (remove_quiet pth os) = (dir os)(pth := None)"
  "open_fds (remove_quiet pth os) = open_fds os" "next_ino (remove_quiet pth os) = next_ino os"
  by (auto simp add: remove_quiet_def posix_remove_def)

lemma os_ok_remove_quiet: "os_ok os \<Longrightarrow> os_ok (remove_quiet pth os)"
  by (auto simp add: os_ok_def)


section \<open>Properties\<close>

text \<open>
  C7. Closing a file in data mode refines removing its identifier from the map of open
  identifiers: from a state with the session invariant, a successful \<open>ncclose\<close> of a
  handle that is not in define mode frees exactly that identifier and that handle,
  counts one open file less and releases one descriptor.
\<close>

theorem ncclose_data_refines:
  assumes "sess_inv s" "nc_check s cdfid = Inr (p, h)" "\<not> flag_set (flags h) NC_INDEF"
    "ncclose cg s cdfid = (Inr v, s')"
  shows "HNDLE (tbl s') = (HNDLE (tbl s))(cdfid := None) \<and> heap s' = (heap s)(p := None) \<and>
         curr_opened (tbl s') = curr_opened (tbl s) - 1 \<and> open_fds (sys s') = open_fds (sys s) - 1"
  using ncclose_data_step [OF assms] by simp

text \<open>
  C6. A redefinition of a netCDF file moves the open handle to the least free
  identifier and puts in its place a new handle in define mode on a file that did not
  exist before, whose \<open>redefid\<close> names the moved handle; the moved handle is in
  define mode on its own file.
\<close>

theorem ncredef_refines:
  assumes "sess_inv s" "nc_check s cdfid = Inr (p, h)" "file_type h \<noteq> HDF_FILE"
    "ncredef cg s cdfid = (Inr v, s')"
  shows "HNDLE (tbl s') = (HNDLE (tbl s))(first_free_id (tbl s) \<mapsto> p, cdfid \<mapsto> next_ptr s) \<and>
         first_free_id (tbl s) \<notin> dom (HNDLE (tbl s)) \<and>
         (\<exists>h'. heap s' p = Some h' \<and> flag_set (flags h') NC_INDEF \<and> x_ino (xdrs h') = x_ino (xdrs h)) \<and>
         (\<exists>new. heap s' (next_ptr s) = Some new \<and> redefid new = first_free_id (tbl s) \<and>
                flag_set (flags new) NC_INDEF \<and> x_ino (xdrs new) \<notin> dom (files (sys s)))"
  using ncredef_step [OF assms] by simp

text \<open>
  C4. Ending a definition writes only the handle's own file: whatever \<open>NC_endef\<close>
  returns, success, copy failure, rename failure or undefined behaviour, every other
  file (the original of a redefinition included) keeps its contents.
\<close>

theorem NC_endef_writes_own_file:
  assumes "NC_endef cg s cdfid p h = (r, s')" "i \<noteq> x_ino (xdrs h)"
  shows "files (sys s') i = files (sys s) i"
  using NC_endef_frame [OF assms(1)] frame_at_files assms(2) by metis

text \<open>
  C2. Redefine-then-abort leaves the original alone: after a successful \<open>ncredef\<close>
  of a netCDF file (with no record count to flush first), \<open>ncabort\<close> succeeds, the
  directory is exactly what it was before the redefinition (the shadow file is
  removed), no file that existed before has changed, and the identifier is closed.
\<close>

theorem redef_abort_restores:
  assumes inv: "sess_inv s" and chk: "nc_check s cdfid = Inr (p, h)"
    and ft: "file_type h = netCDF_FILE" and nc: "\<not> flag_set (flags h) NC_CREAT"
    and clean: "\<not> (flag_set (ncopts s) NC_NOFILL \<and> flag_set (flags h) NC_NDIRTY)"
    and seed: "length (tn_seed s) = 3"
    and r1: "ncredef cg s cdfid = (Inr v, s1)"
  shows "\<exists>s2. ncabort cg s1 cdfid = (Inr 0, s2) \<and> dir (sys s2) = dir (sys s) \<and>
              (\<forall>i \<in> dom (files (sys s)). files (sys s2) i = files (sys s) i) \<and>
              HNDLE (tbl s2) = (HNDLE (tbl s))(cdfid := None) \<and> heap s2 p = None"
proof -
  let ?t = "tbl s" and ?fid = "first_free_id (tbl s)" and ?n = "next_ptr s"
  have ftn: "file_type h \<noteq> HDF_FILE" using ft by simp
  obtain os1 h1 name seed' os2 new where
    fl: "redef_flush cg (ncopts s) (sys s) h = Inl (os1, h1)" and
    tn: "NCtempname os1 (tn_seed s) (path h1) = (name, seed')" and
    dup: "NC_dup_cdf os1 name NC_NOCLOBBER h1 = Inr (os2, new)" and
    s1: "s1 = s\<lparr>tbl := set_slot cdfid (Some ?n) (install_slot ?fid p ?t),
            heap := (heap s)(p \<mapsto> h1\<lparr>flags := flags h1 OR NC_INDEF\<rparr>,
                    ?n \<mapsto> new\<lparr>path := take FILENAME_MAX name, redefid := ?fid\<rparr>),
            next_ptr := Suc ?n, sys := os2, tn_seed := seed'\<rparr>"
    using ncredef_Inr_cases [OF r1 chk ftn] by metis
  note R = ncredef_step [OF inv chk ftn r1]
  note F = redef_flush_Inl [OF fl]
  note D = NC_dup_cdf_Inr [OF dup]
  have os1: "os1 = sys s" using F clean by simp
  have len: "length name \<le> FILENAME_MAX" using NCtempname_length [OF tn D[THEN conjunct2, THEN conjunct1] seed] .
  let ?new = "new\<lparr>path := take FILENAME_MAX name, redefid := ?fid\<rparr>"
  have fresh: "heap s ?n = None" by (rule sess_inv_fresh [OF inv])
  have pn: "p \<noteq> ?n" using nc_check_Inr [OF chk] fresh by auto
  have free: "?fid \<notin> dom (HNDLE ?t)" using R by simp
  have fc: "?fid \<noteq> cdfid" using free nc_check_Inr [OF chk] by auto
  have chk1: "nc_check s1 cdfid = Inr (?n, ?new)"
    using R s1 by (simp add: nc_check_def NC_check_id_def)
  have "flags ?new = flags h1 OR NC_INDEF" using D by simp
  then have fl1: "flag_set (flags ?new) NC_INDEF" "\<not> flag_set (flags ?new) NC_CREAT"
    using nc F clean by (auto simp add: flag_simps)
  have st1: "HNDLE (tbl s1) (redefid ?new) = Some p" using R fc by simp
  note A = ncabort_redef [OF R[THEN conjunct1] chk1 fl1 st1 _ , of cg]
  have ft1: "file_type ?new = netCDF_FILE" using D F ft by simp
  obtain s2 where s2: "ncabort cg s1 cdfid = (Inr 0, s2)"
    and sys2: "sys s2 = remove_quiet (take FILENAME_MAX (path ?new)) (posix_close (posix_close os2))"
    and H2: "HNDLE (tbl s2) = ((HNDLE (tbl s1))(?fid := None))(cdfid := None)"
    and hp2: "heap s2 = ((heap s1)(p := None))(?n := None)"
    using A fc ft1 s1 by fastforce
  have "dir (sys s2) = dir (sys s)"
    using sys2 D os1 len by (simp add: posix_close_def fun_upd_idem)
  moreover have "\<forall>i \<in> dom (files (sys s)). files (sys s2) i = files (sys s) i"
    using sys2 D os1 sess_invD(7) [OF inv] by (auto simp add: posix_close_def os_ok_def)
  moreover have "HNDLE (tbl s2) = (HNDLE (tbl s))(cdfid := None)"
    using H2 R free by (auto simp add: fun_upd_twist)
  moreover have "heap s2 p = None" using hp2 by simp
  ultimately show ?thesis using s2 by blast
qed


text \<open>
  C5. Committing a redefinition refines its contract (specification, section 4.3): from
  a state with the session invariant, a successful \<open>NC_endef\<close> of a netCDF file in
  a redefinition (not a create) with a schema retires the stash's identifier and frees
  the stash, leaves the handle in data mode under the stash's path with no partner,
  on the same file, puts the shadow file's directory entry at the original path,
  counts one file less, and keeps the invariant.
\<close>

theorem NC_endef_commit_refines:
  assumes inv: "sess_inv s" and chk: "nc_check s cdfid = Inr (p, h)" and ne: "redefid h \<noteq> cdfid"
    and kind: "file_type h \<noteq> HDF_FILE" "vars h \<noteq> None" "\<not> flag_set (flags h) NC_CREAT"
    and r: "NC_endef cg s cdfid p h = (Inr v, s')"
  shows "\<exists>q old h'. HNDLE (tbl s) (redefid h) = Some q \<and> heap s q = Some old \<and>
           HNDLE (tbl s') = (HNDLE (tbl s))(redefid h := None) \<and> heap s' q = None \<and>
           heap s' p = Some h' \<and> path h' = take FILENAME_MAX (path old) \<and> redefid h' = -1 \<and>
           \<not> flag_set (flags h') NC_INDEF \<and> x_ino (xdrs h') = x_ino (xdrs h) \<and>
           dir (sys s') (path old) = dir (sys s) (path h) \<and>
           curr_opened (tbl s') = curr_opened (tbl s) - 1 \<and> sess_inv s'"
  using r
proof (cases rule: NC_endef_Inr_cases)
  case (plain h' os')
  then show ?thesis using kind by auto
next
  case (committed q old h4 os4 os5)
  note C = nc_check_Inr [OF chk]
  have pq: "p \<noteq> q" using sess_invD(3) [OF inv, of cdfid p "redefid h"] C committed(1) ne by auto
  let ?hf = "clear_modes (h4\<lparr>path := take FILENAME_MAX (path old), redefid := -1\<rparr>)"
  have H: "HNDLE (tbl s') = (HNDLE (tbl s))(redefid h := None)"
    using HNDLE_retire [OF sess_invD(1) [OF inv]] committed(1,9) by simp
  have D: "dir (sys s') (path old) = dir (sys s) (path h)"
    using posix_rename_dir [OF committed(7)] writes_only_fields [OF committed(3)] committed(6,9)
    by (simp add: posix_close_def)
  have "heap s' q = None" "heap s' p = Some ?hf" using committed(9) pq by simp_all
  moreover have "\<not> flag_set (flags ?hf) NC_INDEF" using clear_modes_data_mode by blast
  ultimately show ?thesis
    using committed H D NC_endef_Inr_inv [OF inv chk ne r] by (auto simp add: clear_modes_def)
qed


text \<open>
  C32. The state-machine errors of \<open>ncredef\<close> are detected before any change
  (specification, section 7): every error other than a failed flush or a failed
  creation of the shadow leaves the state as it was; in define mode
  \<open>NC_EINDEFINE\<close> is reported exactly when \<open>STASH(cdfid)\<close> names an allocated
  handle and nothing is reported exactly when it is \<open>NULL\<close>; \<open>NC_EPERM\<close> is
  reported exactly when the handle is in data mode and read-only.
\<close>

theorem ncredef_state_errors:
  assumes r: "ncredef cg s cdfid = (Inl e, s')" and e: "e \<noteq> NC_EXDR" "e \<noteq> NC_SYSERR"
  shows "s' = s \<and>
         (e = NC_EINDEFINE \<longleftrightarrow> (\<exists>p h q. nc_check s cdfid = Inr (p, h) \<and> flag_set (flags h) NC_INDEF \<and>
                                       HNDLE (tbl s) (redefid h) = Some q \<and> heap s q \<noteq> None)) \<and>
         (e = NC_NOREPORT \<longleftrightarrow> (\<exists>p h. nc_check s cdfid = Inr (p, h) \<and> flag_set (flags h) NC_INDEF \<and>
                                       HNDLE (tbl s) (redefid h) = None)) \<and>
         (e = NC_EPERM \<longleftrightarrow> (\<exists>p h. nc_check s cdfid = Inr (p, h) \<and> \<not> flag_set (flags h) NC_INDEF \<and>
                                   \<not> flag_set (flags h) NC_RDWR))"
proof (cases "nc_check s cdfid")
  case (Inl e0)
  then show ?thesis using r nc_check_Inl [OF Inl] by (auto simp add: ncredef_def)
next
  case (Inr ph)
  obtain p h where chk: "nc_check s cdfid = Inr (p, h)" using Inr by (cases ph) simp
  show ?thesis
    using r e chk
    by (auto simp add: ncredef_def Let_def split: if_splits sum.splits prod.splits option.splits)
qed

end
