(* ===== verification/Api.thy ===== *)
theory Api
  imports Redef
begin

text \<open>
  The API of \<open>mfhdf/src/file.c\<close> as a whole: a process starts with no table, no
  handles and no open descriptors; the API calls are the operations of the session and
  redefinition theories, dispatched by \<open>api_step\<close> and run in sequence by
  \<open>api_run\<close>. \<open>reach\<close> is the set of states a client reaches from a start state by
  the calls that keep the session consistent (opening while the table is within the
  system limit, closing in data mode, redefining a netCDF file, aborting a
  redefinition, a sync that does not fail on rereading the header, any change of the
  fill mode, a successful end of definition whose handle does not name itself as its
  partner); the invariant holds in all of them. The scenarios at the end run
  concrete call sequences and show the defects of the other paths.
\<close>

definition init_state :: "os_state \<Rightarrow> u32 \<Rightarrow> nc_state" where
  "init_state os opts =
     \<lparr>tbl = init_table, heap = Map.empty, next_ptr = 0, sys = os, ncopts = opts, tn_seed = tn_init_seed\<rparr>"

datatype api_op =
    Create string u32 | Open string u32 | Close int | Abort int | Redef int | Endef int
  | Sync int | SetFill int u32 | NoBuf int

fun api_step :: "codec \<Rightarrow> nc_state \<Rightarrow> api_op \<Rightarrow> int result" where
  "api_step cg s (Create p m) = nccreate cg s p m"
| "api_step cg s (Open p m) = ncopen cg s p m"
| "api_step cg s (Close i) = ncclose cg s i"
| "api_step cg s (Abort i) = ncabort cg s i"
| "api_step cg s (Redef i) = ncredef cg s i"
| "api_step cg s (Endef i) = ncendef cg s i"
| "api_step cg s (Sync i) = ncsync cg s i"
| "api_step cg s (SetFill i m) = ncsetfill cg s i m"
| "api_step cg s (NoBuf i) = ncnobuf s i"

fun api_run :: "codec \<Rightarrow> nc_state \<Rightarrow> api_op list \<Rightarrow> (nc_err + int) list \<times> nc_state" where
  "api_run cg s [] = ([], s)"
| "api_run cg s (op # ops) =
     (case api_step cg s op of (r, s1) \<Rightarrow> (case api_run cg s1 ops of (rs, s2) \<Rightarrow> (r # rs, s2)))"

inductive reach :: "codec \<Rightarrow> nc_state \<Rightarrow> bool" for cg where
  reach_init: "os_ok os \<Longrightarrow> open_fds os = 0 \<Longrightarrow> reach cg (init_state os opts)"
| reach_open: "reach cg s \<Longrightarrow> ncdf (tbl s) \<le> MAX_AVAIL_OPENFILES (rlim_cur (sys s)) \<Longrightarrow>
                NC_open cg s name mode = (r, s') \<Longrightarrow> reach cg s'"
| reach_close: "reach cg s \<Longrightarrow> nc_check s cdfid = Inr (p, h) \<Longrightarrow> \<not> flag_set (flags h) NC_INDEF \<Longrightarrow>
                ncclose cg s cdfid = (Inr v, s') \<Longrightarrow> reach cg s'"
| reach_redef: "reach cg s \<Longrightarrow> nc_check s cdfid = Inr (p, h) \<Longrightarrow> file_type h \<noteq> HDF_FILE \<Longrightarrow>
                ncredef cg s cdfid = (Inr v, s') \<Longrightarrow> reach cg s'"
| reach_abort: "reach cg s \<Longrightarrow> nc_check s cdfid = Inr (q, hn) \<Longrightarrow> flag_set (flags hn) NC_INDEF \<Longrightarrow>
                \<not> flag_set (flags hn) NC_CREAT \<Longrightarrow> HNDLE (tbl s) (redefid hn) = Some p \<Longrightarrow>
                redefid hn \<noteq> cdfid \<Longrightarrow> file_type hn = netCDF_FILE \<Longrightarrow>
                ncabort cg s cdfid = (r, s') \<Longrightarrow> reach cg s'"
| reach_sync: "reach cg s \<Longrightarrow> ncsync cg s cdfid = (r, s') \<Longrightarrow> r \<noteq> Inl NC_SYSERR \<Longrightarrow> reach cg s'"
| reach_setfill: "reach cg s \<Longrightarrow> ncsetfill cg s cdfid m = (r, s') \<Longrightarrow> reach cg s'"
| reach_endef: "reach cg s \<Longrightarrow> nc_check s cdfid = Inr (p, h) \<Longrightarrow> redefid h \<noteq> cdfid \<Longrightarrow>
                ncendef cg s cdfid = (Inr v, s') \<Longrightarrow> reach cg s'"

text \<open>Handles that \<open>ncclose\<close> releases without writing: in data mode and clean.\<close>

definition closable :: "nc_state \<Rightarrow> bool" where
  "closable s \<longleftrightarrow> (\<forall>h \<in> ran (heap s).
     \<not> flag_set (flags h) NC_INDEF \<and> \<not> flag_set (flags h) NC_HDIRTY \<and> \<not> flag_set (flags h) NC_NDIRTY)"

section \<open>A sample environment\<close>

text \<open>
  A codec whose header is 8 zero bytes and whose decoder reads one fixed-size variable
  of 4 bytes at offset 8 from any non-empty file; a process whose directory holds one
  such file, \<open>d/a.nc\<close>, with a switch for \<open>rename(2)\<close> failures.
\<close>

definition sample_var :: nc_var where
  "sample_var = \<lparr>v_name = ''v'', v_shape = [4], v_dsizes = [1], v_len = 4, v_begin = 8\<rparr>"

definition sample_codec :: "file_kind \<Rightarrow> codec" where
  "sample_codec k = \<lparr>c_xlen = (\<lambda>h. 8), c_header = (\<lambda>h. Some (replicate 8 0)),
     c_decode = (\<lambda>d. if d = [] then None else Some (Some [sample_var], 0)),
     c_kind = (\<lambda>d. Some k), c_numrecs = (\<lambda>n. replicate 4 0), c_numrecs_pos = 4,
     c_fill = (\<lambda>v. replicate (unat (v_len v)) 0), c_create_kind = k\<rparr>"

definition sample_os :: "bool \<Rightarrow> os_state" where
  "sample_os fault = \<lparr>dir = [''d/a.nc'' \<mapsto> 0], files = [0 \<mapsto> [1, 2, 3, 4, 5, 6, 7, 8, 9, 10, 11, 12]], next_ino = 1,
     open_fds = 0, rlim_cur = 1024, pid = 4242, oom = False, rename_fault = fault, in_use = {}\<rparr>"

definition sample_state :: "bool \<Rightarrow> nc_state" where
  "sample_state fault = init_state (sample_os fault) 0"

text \<open>
  The states the witnesses start from: \<open>d/a.nc\<close> opened for writing, the same file
  after \<open>ncredef\<close>, and a table whose only slot is live at a capacity equal to
  the limit of a process allowed 4 descriptors; \<open>d/a.nc\<close> opened read-only, and
  then created again with \<open>NC_CLOBBER\<close>, which empties it under the read-only
  handle; a full table of capacity 2 in a process whose limit allows one file; an HDF
  file created and ended, so writable and in data mode with slot 1 empty; a created
  netCDF file without variables, ended and redefined; \<open>d/a.nc\<close> opened for
  writing and redefined in a process whose \<open>rename(2)\<close> fails.
\<close>

definition sample_opened :: nc_state where
  "sample_opened = snd (NC_open (sample_codec netCDF_FILE) (sample_state False) ''d/a.nc'' NC_WRITE)"

definition sample_redef :: nc_state where
  "sample_redef = snd (ncredef (sample_codec netCDF_FILE) sample_opened 0)"

definition sample_full :: nc_state where
  "sample_full = (sample_state False)\<lparr>tbl := \<lparr>cdfs = Some [Some 0], ncdf = 1, curr_opened = 1, max_NC_open = 1\<rparr>,
     sys := (sample_os False)\<lparr>rlim_cur := 4\<rparr>\<rparr>"

definition sample_ro :: nc_state where
  "sample_ro = snd (ncopen (sample_codec netCDF_FILE) (sample_state False) ''d/a.nc'' NC_NOWRITE)"

definition sample_clobbered :: nc_state where
  "sample_clobbered = snd (nccreate (sample_codec netCDF_FILE) sample_ro ''d/a.nc'' NC_CLOBBER)"

definition sample_tight :: nc_state where
  "sample_tight = (sample_state False)\<lparr>tbl := \<lparr>cdfs = Some [Some 0, Some 1], ncdf = 2, curr_opened = 2, max_NC_open = 2\<rparr>,
     sys := (sample_os False)\<lparr>rlim_cur := 4\<rparr>\<rparr>"

definition sample_hdf :: nc_state where
  "sample_hdf = snd (api_run (sample_codec HDF_FILE) (init_state (sample_os False) 0)
                              [Create ''d/b.hdf'' NC_CLOBBER, Endef 0])"

definition sample_empty_redef :: nc_state where
  "sample_empty_redef = snd (api_run (sample_codec netCDF_FILE) (init_state (sample_os False) 0)
                                     [Create ''d/b.nc'' NC_CLOBBER, Endef 0, Redef 0])"

definition sample_redef_fault :: nc_state where
  "sample_redef_fault = snd (api_run (sample_codec netCDF_FILE) (sample_state True)
                                     [Open ''d/a.nc'' NC_WRITE, Redef 0])"

section \<open>Lemmas\<close>

lemma sess_inv_init: "os_ok os \<Longrightarrow> open_fds os = 0 \<Longrightarrow> sess_inv (init_state os opts)"
  using tbl_inv_init by (auto simp add: sess_inv_def init_state_def HNDLE_def init_table_def slots_def)

lemma ncabort_redef_inv:
  assumes inv: "sess_inv s" and chk: "nc_check s cdfid = Inr (q, hn)"
    and fl: "flag_set (flags hn) NC_INDEF" "\<not> flag_set (flags hn) NC_CREAT"
    and st: "HNDLE (tbl s) (redefid hn) = Some p" and ne: "redefid hn \<noteq> cdfid"
    and ft: "file_type hn = netCDF_FILE" and r: "ncabort cg s cdfid = (r, s')"
  shows "sess_inv s'"
proof -
  note A = ncabort_redef [OF inv chk fl st ne ft, of cg]
  let ?s1 = "s\<lparr>heap := (heap s)(p := None), sys := id (posix_close (sys s)), tbl := retire_slot (redefid hn) (tbl s)\<rparr>"
  have i1: "sess_inv ?s1"
    by (rule sess_inv_free_retire [OF inv st]) (simp_all add: posix_close_def sess_invD(7) [OF inv])
  have l1: "HNDLE (tbl ?s1) cdfid = Some q"
    using HNDLE_retire [OF sess_invD(1) [OF inv]] st ne nc_check_Inr [OF chk] by simp
  have "sess_inv (?s1\<lparr>heap := (heap ?s1)(q := None),
                     sys := remove_quiet (take FILENAME_MAX (path hn)) (posix_close (sys ?s1)),
                     tbl := retire_slot cdfid (tbl ?s1)\<rparr>)"
  proof (rule sess_inv_free_retire [OF i1 l1])
    show "os_ok (remove_quiet (take FILENAME_MAX (path hn)) (posix_close (sys ?s1)))"
      using os_ok_remove_quiet sess_invD(7) [OF i1] by simp
  qed (simp_all add: posix_close_def)
  then show ?thesis using A r by simp
qed

lemma reach_inv: "reach cg s \<Longrightarrow> sess_inv s"
proof (induction rule: reach.induct)
  case (reach_init os opts)
  then show ?case by (rule sess_inv_init)
next
  case (reach_open s name mode r s')
  then show ?case by (cases r) (auto dest: NC_open_Inl_step NC_open_Inr_step)
next
  case (reach_close s cdfid p h v s')
  then show ?case using ncclose_data_step by blast
next
  case (reach_redef s cdfid p h v s')
  then show ?case using ncredef_step by blast
next
  case (reach_abort s cdfid q hn p r s')
  then show ?case using ncabort_redef_inv by blast
next
  case (reach_sync s cdfid r s')
  then show ?case using ncsync_step by blast
next
  case (reach_setfill s cdfid m r s')
  then show ?case using ncsetfill_step by blast
next
  case (reach_endef s cdfid p h v s')
  then show ?case using NC_endef_Inr_inv ncendef_Inr by blast
qed

lemma dom_HNDLE:
  assumes "tbl_inv t"
  shows "dom (HNDLE t) = image int {k. k < nat (ncdf t) \<and> slots t ! k \<noteq> None}"
proof
  show "dom (HNDLE t) \<subseteq> image int {k. k < nat (ncdf t) \<and> slots t ! k \<noteq> None}"
  proof
    fix i assume "i \<in> dom (HNDLE t)"
    then have h: "HNDLE t i \<noteq> None" by auto
    then have r: "0 \<le> i" "i < ncdf t" using HNDLE_range [of t i] by auto
    from h have "slots t ! nat i \<noteq> None" using HNDLE_nth [OF assms r] by simp
    then show "i \<in> image int {k. k < nat (ncdf t) \<and> slots t ! k \<noteq> None}"
      using r by (auto intro!: image_eqI [of _ _ "nat i"])
  qed
  show "image int {k. k < nat (ncdf t) \<and> slots t ! k \<noteq> None} \<subseteq> dom (HNDLE t)"
    using HNDLE_nth [OF assms] by auto
qed

lemma curr_opened_card:
  assumes inv: "tbl_inv t"
  shows "curr_opened t = int (card (dom (HNDLE t)))"
proof -
  let ?n = "nat (ncdf t)"
  have len: "?n \<le> length (slots t)" by (rule tbl_inv_ncdf_le_length [OF inv])
  have "live_count t = card {k. k < length (take ?n (slots t)) \<and> take ?n (slots t) ! k \<noteq> None}"
    unfolding live_count_def by (rule length_filter_conv_card)
  also have "\<dots> = card {k. k < ?n \<and> slots t ! k \<noteq> None}"
    using len by (auto intro: arg_cong [where f = card])
  also have "\<dots> = card (dom (HNDLE t))"
    unfolding dom_HNDLE [OF inv] by (rule card_image [symmetric]) (simp add: inj_on_def)
  finally show ?thesis using inv by (simp add: tbl_inv_def)
qed

lemmas api_eval = sample_state_def sample_codec_def sample_os_def sample_var_def init_state_def
  nccreate_def ncopen_def NC_open_def nc_alloc_table_def nc_grow_table_def Let_def init_table_def
  NC_reset_maxopenfiles_def MAX_AVAIL_OPENFILES_def H4_MAX_AVAIL_OPENFILES_def nc_malloc_def
  first_free_id_def slots_def NC_new_cdf_def NCxdrfile_create_def posix_open_def new_file_def
  install_slot_def set_slot_def flag_set_def slot_in_array_def ncendef_def nc_check_def NC_check_id_def
  HNDLE_def NC_indefine_def NC_endef_def xdr_cdf_encode_def h4_xdr_setpos_def h4_xdr_putbytes_def
  h4_xdr_getbytes_def set_xop_def put_h_def clear_modes_def ncredef_def redef_flush_def ncabort_def
  NC_free_cdf_def retire_slot_def abort_tail_def release_def abort_removes_def remove_quiet_def
  posix_remove_def posix_close_def ncreset_cdflist_def FILENAME_MAX_def case_drop_nth nth_list_update
  list.case_eq_if hd_conv_nth ncclose_def flush_dirty_def ncsync_def xdr_cdf_decode_def
  NC_computeshapes_def IS_RECVAR_def take_update_swap take_replicate
  NC_begins_def NC_vcpy_def vcp_def NC_dcpy.simps NC_DCP_BUFSIZE_def endef_var_def endef_fill_def
  stash_put_def endef_commit_def posix_rename_def xdr_numrecs_def xdr_NC_fill_def NCtempname_def
  tn_begin_def tn_digits_def tn_init_seed_def tn_letters_def posix_access_def TN_NSEED_def TN_NACCES_def
  TN_NDIGITS_def NC_dup_cdf_def char_of_def bit_0

lemma sample_inv: "sess_inv (sample_state f)"
  unfolding sample_state_def by (rule sess_inv_init) (auto simp add: os_ok_def sample_os_def)

lemma sample_open_eq:
  "NC_open (sample_codec netCDF_FILE) (sample_state False) ''d/a.nc'' NC_WRITE = (Inr 0, sample_opened)"
  by (simp add: sample_opened_def api_eval)

lemma sample_opened_inv: "sess_inv sample_opened"
  using NC_open_Inr_step [OF sample_inv _ sample_open_eq] by (simp add: api_eval)

lemma sample_opened_check:
  "nc_check sample_opened 0 = Inr (0, the (heap sample_opened 0))"
  by (simp add: sample_opened_def api_eval)

lemma sample_redef_eq: "ncredef (sample_codec netCDF_FILE) sample_opened 0 = (Inr 0, sample_redef)"
  by (simp add: sample_redef_def sample_opened_def api_eval)

lemma sample_ro_eq:
  "ncopen (sample_codec netCDF_FILE) (sample_state False) ''d/a.nc'' NC_NOWRITE = (Inr 0, sample_ro)"
  by (simp add: sample_ro_def api_eval)

lemma sample_clobbered_inv: "sess_inv sample_clobbered"
proof -
  have o: "NC_open (sample_codec netCDF_FILE) (sample_state False) ''d/a.nc'' NC_NOWRITE = (Inr 0, sample_ro)"
    using sample_ro_eq by (simp add: ncopen_def flag_set_def)
  have i1: "sess_inv sample_ro" using NC_open_Inr_step [OF sample_inv _ o] by (simp add: api_eval)
  have c: "NC_open (sample_codec netCDF_FILE) sample_ro ''d/a.nc'' NC_CLOBBER = (Inr 1, sample_clobbered)"
    by (simp add: sample_clobbered_def sample_ro_def api_eval)
  show ?thesis using NC_open_Inr_step [OF i1 _ c] by (simp add: sample_ro_def api_eval)
qed

lemma sample_opened_reach: "reach (sample_codec netCDF_FILE) sample_opened"
proof -
  have r0: "reach (sample_codec netCDF_FILE) (sample_state False)"
    unfolding sample_state_def by (rule reach_init) (simp_all add: os_ok_def sample_os_def)
  show ?thesis by (rule reach_open [OF r0 _ sample_open_eq]) (simp add: api_eval)
qed

lemma curr_opened_heap: "sess_inv s \<Longrightarrow> curr_opened (tbl s) = int (card (dom (heap s)))"
proof -
  assume I: "sess_inv s"
  let ?m = "HNDLE (tbl s)"
  have r: "ran ?m = (\<lambda>i. the (?m i)) ` dom ?m" by (force simp add: ran_def)
  have "inj_on (\<lambda>i. the (?m i)) (dom ?m)"
    using sess_invD(3) [OF I] by (auto simp add: inj_on_def)
  then have "card (ran ?m) = card (dom ?m)" unfolding r by (rule card_image)
  moreover have "ran ?m = dom (heap s)" using sess_invD(2,5) [OF I] by (auto simp add: ran_def)
  ultimately show ?thesis using curr_opened_card [OF sess_invD(1) [OF I]] by simp
qed

lemma sample_hdf_inv: "sess_inv sample_hdf"
proof -
  let ?cg = "sample_codec HDF_FILE"
  let ?s0 = "init_state (sample_os False) 0"
  let ?sc = "snd (NC_open ?cg ?s0 ''d/b.hdf'' NC_CLOBBER)"
  have r0: "reach ?cg ?s0" by (rule reach_init) (simp_all add: os_ok_def sample_os_def)
  have o: "NC_open ?cg ?s0 ''d/b.hdf'' NC_CLOBBER = (Inr 0, ?sc)" by (simp add: api_eval)
  have r1: "reach ?cg ?sc" by (rule reach_open [OF r0 _ o]) (simp add: api_eval)
  have chk: "nc_check ?sc 0 = Inr (0, the (heap ?sc 0))" by (simp add: api_eval)
  have rd: "redefid (the (heap ?sc 0)) \<noteq> 0" by (simp add: api_eval)
  have e: "ncendef ?cg ?sc 0 = (Inr 0, sample_hdf)" by (simp add: sample_hdf_def api_eval)
  show ?thesis by (rule reach_inv [OF reach_endef [OF r1 chk rd e]])
qed

lemma sample_redef_fault_inv: "sess_inv sample_redef_fault"
proof -
  let ?cg = "sample_codec netCDF_FILE"
  let ?so = "snd (NC_open ?cg (sample_state True) ''d/a.nc'' NC_WRITE)"
  have r0: "reach ?cg (sample_state True)"
    unfolding sample_state_def by (rule reach_init) (simp_all add: os_ok_def sample_os_def)
  have o: "NC_open ?cg (sample_state True) ''d/a.nc'' NC_WRITE = (Inr 0, ?so)" by (simp add: api_eval)
  have r1: "reach ?cg ?so" by (rule reach_open [OF r0 _ o]) (simp add: api_eval)
  have chk: "nc_check ?so 0 = Inr (0, the (heap ?so 0))" by (simp add: api_eval)
  have ft: "file_type (the (heap ?so 0)) \<noteq> HDF_FILE" by (simp add: api_eval)
  have e: "ncredef ?cg ?so 0 = (Inr 0, sample_redef_fault)" by (simp add: sample_redef_fault_def api_eval)
  show ?thesis by (rule reach_inv [OF reach_redef [OF r1 chk ft e]])
qed

section \<open>Properties\<close>

text \<open>
  C1. Accounting in every reachable state: the open-file counter \<open>_curr_opened\<close>
  is the number of live identifiers, the descriptors the library holds are exactly
  one per allocated handle, and the allocated handles are exactly those the live
  identifiers point at, each at one identifier.
\<close>

theorem reach_accounting:
  assumes "reach cg s"
  shows "curr_opened (tbl s) = int (card (dom (HNDLE (tbl s)))) \<and>
         open_fds (sys s) = card (dom (heap s)) \<and> ran (HNDLE (tbl s)) = dom (heap s) \<and>
         inj_on (HNDLE (tbl s)) (dom (HNDLE (tbl s)))"
proof -
  note I = reach_inv [OF assms]
  have "ran (HNDLE (tbl s)) = dom (heap s)"
    using sess_invD(2,5) [OF I] by (auto simp add: ran_def)
  moreover have "inj_on (HNDLE (tbl s)) (dom (HNDLE (tbl s)))"
    using sess_invD(3) [OF I] by (auto simp add: inj_on_def)
  ultimately show ?thesis using curr_opened_card [OF sess_invD(1) [OF I]] sess_invD(6) [OF I] by simp
qed


text \<open>
  C12. Opening a file read-only and closing it again is a round trip: from a state with
  the session invariant, within the system limit, a successful \<open>ncopen\<close> without
  \<open>NC_RDWR\<close> and \<open>NC_INDEF\<close> is followed by a successful \<open>ncclose\<close> of the
  identifier it returned, after which the map of identifiers, the heap, the open count
  and the descriptors are as before.
\<close>

theorem open_close_roundtrip:
  assumes inv: "sess_inv s" and lim: "ncdf (tbl s) \<le> MAX_AVAIL_OPENFILES (rlim_cur (sys s))"
    and m: "\<not> flag_set mode NC_INDEF" "\<not> flag_set mode NC_RDWR"
    and o: "ncopen cg s name mode = (Inr cid, s1)"
  shows "\<exists>s2. ncclose cg s1 cid = (Inr 0, s2) \<and> sess_inv s2 \<and> HNDLE (tbl s2) = HNDLE (tbl s) \<and>
              heap s2 = heap s \<and> curr_opened (tbl s2) = curr_opened (tbl s) \<and>
              open_fds (sys s2) = open_fds (sys s)"
proof -
  have r: "NC_open cg s name mode = (Inr cid, s1)"
    using o by (simp add: ncopen_def split: if_splits)
  note S = NC_open_Inr_step [OF inv lim r]
  obtain h where h: "heap s1 = (heap s)(next_ptr s \<mapsto> h)" "flags h = mode"
    "open_fds (sys s1) = Suc (open_fds (sys s))"
    using NC_open_Inr_handle [OF r sess_invD(7) [OF inv]] by blast
  have chk: "nc_check s1 cid = Inr (next_ptr s, h)"
    using S h by (simp add: nc_check_def NC_check_id_def)
  note C = ncclose_plain [OF conjunct1 [OF S] chk, unfolded h(2), OF m, of cg]
  note D = ncclose_data_step [OF conjunct1 [OF S] chk, unfolded h(2), OF m(1) C]
  have "heap s (next_ptr s) = None" by (rule sess_inv_fresh [OF inv])
  then have "((heap s)(next_ptr s \<mapsto> h))(next_ptr s := None) = heap s" by auto
  then show ?thesis using C D S h by auto
qed

text \<open>
  C31. The static seed of \<open>NCtempname\<close> stays well formed: in every reachable state
  it is three lowercase letters, so the shadow names keep their shape.
\<close>

theorem reach_seed_ok: "reach cg s \<Longrightarrow> tn_seed_ok (tn_seed s)"
proof (induction rule: reach.induct)
  case (reach_init os opts)
  then show ?case by (simp add: init_state_def tn_seed_ok_init)
next
  case (reach_open s name mode r s')
  then show ?case using NC_open_seed by metis
next
  case (reach_close s cdfid p h v s')
  then show ?case using ncclose_data_seed by metis
next
  case (reach_redef s cdfid p h v s')
  then show ?case using ncredef_seed by blast
next
  case (reach_abort s cdfid q hn p r s')
  then show ?case using ncabort_seed by metis
next
  case (reach_sync s cdfid r s')
  then show ?case using ncsync_seed by metis
next
  case (reach_setfill s cdfid m r s')
  then show ?case using ncsetfill_seed by metis
next
  case (reach_endef s cdfid p h v s')
  then show ?case using NC_endef_Inr_seed ncendef_Inr by metis
qed

text \<open>
  C13. Closing every open file always completes and releases everything: from a
  consistent state whose handles are all in data mode and clean, closing each live
  identifier once, in any order, succeeds every time and ends with no live
  identifier, an empty heap, a zero open count, no descriptor held and the
  invariant.
\<close>

theorem close_all_releases:
  assumes "sess_inv s" "distinct ids" "set ids = dom (HNDLE (tbl s))" "closable s"
  shows "\<exists>s'. api_run cg s (map Close ids) = (replicate (length ids) (Inr 0), s') \<and> sess_inv s' \<and>
              HNDLE (tbl s') = Map.empty \<and> heap s' = Map.empty \<and> curr_opened (tbl s') = 0 \<and>
              open_fds (sys s') = 0"
  using assms
proof (induction ids arbitrary: s)
  case Nil
  have H: "HNDLE (tbl s) = Map.empty" using Nil.prems(3) by (simp add: dom_eq_empty_conv [symmetric])
  have "heap s = Map.empty"
  proof
    fix p show "heap s p = None" using sess_invD(5) [OF Nil.prems(1), of p] H by (cases "heap s p") auto
  qed
  then show ?case using Nil.prems(1) H curr_opened_card [OF sess_invD(1) [OF Nil.prems(1)]]
    by (simp add: sess_invD(6))
next
  case (Cons i ids)
  obtain p where p: "HNDLE (tbl s) i = Some p" using Cons.prems(3) by auto
  obtain h where h: "heap s p = Some h" using sess_invD(2) [OF Cons.prems(1) p] by auto
  have chk: "nc_check s i = Inr (p, h)" using p h by (simp add: nc_check_def NC_check_id_def)
  have cl: "\<not> flag_set (flags h) NC_INDEF" "\<not> flag_set (flags h) NC_HDIRTY" "\<not> flag_set (flags h) NC_NDIRTY"
    using Cons.prems(4) h by (auto simp add: closable_def ran_def)
  let ?s1 = "s\<lparr>heap := (heap s)(p := None), sys := id (posix_close (sys s)), tbl := retire_slot i (tbl s)\<rparr>"
  have c: "ncclose cg s i = (Inr 0, ?s1)" using ncclose_clean [OF Cons.prems(1) chk cl] by simp
  have i1: "sess_inv ?s1"
    by (rule sess_inv_free_retire [OF Cons.prems(1) p]) (simp_all add: posix_close_def sess_invD(7) [OF Cons.prems(1)])
  have H1: "HNDLE (tbl ?s1) = (HNDLE (tbl s))(i := None)"
    using HNDLE_retire [OF sess_invD(1) [OF Cons.prems(1)]] p by simp
  have d1: "set ids = dom (HNDLE (tbl ?s1))" using Cons.prems(2,3) H1 by auto
  have k1: "closable ?s1" using Cons.prems(4) by (auto simp add: closable_def ran_def)
  obtain s' where "api_run cg ?s1 (map Close ids) = (replicate (length ids) (Inr 0), s') \<and> sess_inv s' \<and>
              HNDLE (tbl s') = Map.empty \<and> heap s' = Map.empty \<and> curr_opened (tbl s') = 0 \<and>
              open_fds (sys s') = 0"
    using Cons.IH [OF i1 _ d1 k1] Cons.prems(2) by auto
  then show ?case using c by auto
qed

text \<open>
  C33. The high-water mark \<open>_ncdf\<close> does not cascade: a successful data-mode
  \<open>ncclose\<close> lowers it by exactly one when the identifier closed is the top one,
  whatever the slots below hold, and leaves it unchanged otherwise; the table
  \<open>_cdfs\<close> is freed exactly when the mark reaches 0. So after closing identifiers
  in ascending order the mark stays above every live identifier, and the table
  stays allocated with no file open.
\<close>

theorem ncclose_mark:
  assumes inv: "sess_inv s" and chk: "nc_check s cdfid = Inr (p, h)"
    and dm: "\<not> flag_set (flags h) NC_INDEF" and r: "ncclose cg s cdfid = (Inr v, s')"
  shows "ncdf (tbl s') = (if cdfid = ncdf (tbl s) - 1 then ncdf (tbl s) - 1 else ncdf (tbl s)) \<and>
         (cdfs (tbl s') = None \<longleftrightarrow> ncdf (tbl s') = 0)"
  using retire_slot_mark [OF sess_invD(1) [OF inv], of cdfid] nc_check_Inr [OF chk]
    ncclose_data_tbl [OF chk dm r] by simp

text \<open>
  C17. Aborting a redefinition of an HDF file releases the open-file count twice: for
  a writable HDF handle in data mode, \<open>ncredef\<close> succeeds by setting
  \<open>redefid\<close> to \<open>TRUE\<close> (1); when slot 1 is empty, \<open>ncabort\<close> then succeeds,
  frees only the handle, but decrements \<open>_curr_opened\<close> for slot 1 as well as for
  the file, so the counter ends one below the number of allocated handles.
\<close>

theorem hdf_abort_double_release:
  assumes inv: "sess_inv s" and chk: "nc_check s cdfid = Inr (p, h)" and ft: "file_type h = HDF_FILE"
    and m: "\<not> flag_set (flags h) NC_INDEF" "flag_set (flags h) NC_RDWR" "\<not> flag_set (flags h) NC_CREAT"
    and one: "HNDLE (tbl s) 1 = None" "slot_in_array (tbl s) 1"
    and r: "ncredef cg s cdfid = (r1, s1)"
  shows "r1 = Inr 0 \<and>
         (\<exists>s2. ncabort cg s1 cdfid = (Inr 0, s2) \<and> heap s2 = (heap s)(p := None) \<and>
               curr_opened (tbl s2) = curr_opened (tbl s) - 2 \<and>
               curr_opened (tbl s2) = int (card (dom (heap s2))) - 1)"
proof -
  note C = nc_check_Inr [OF chk]
  let ?h1 = "h\<lparr>flags := flags h OR NC_INDEF, redefid := 1\<rparr>"
  have s1: "r1 = Inr 0" "s1 = put_h s p ?h1" using r chk m ft by (simp_all add: ncredef_def)
  have ne: "cdfid \<noteq> 1" using C one(1) by auto
  have chk1: "nc_check s1 cdfid = Inr (p, ?h1)" using s1 C by (simp add: nc_check_def NC_check_id_def put_h_def)
  have f1: "flags ?h1 = flags h OR NC_INDEF" by simp
  have fl: "flag_set (flags ?h1) (NC_INDEF OR NC_CREAT)" "\<not> flag_set (flags ?h1) NC_CREAT"
    using m by (simp_all only: f1 flag_set_mask_or flag_set_or flag_set_consts simp_thms)
  have sa: "slot_in_array (retire_slot 1 (tbl s)) cdfid"
    by (rule slot_in_array_retire [OF sess_invD(1) [OF inv]]) (use C ne in auto)
  let ?s2 = "s\<lparr>heap := (heap s)(p := None), sys := posix_close (sys s),
                tbl := retire_slot cdfid (retire_slot 1 (tbl s))\<rparr>"
  have ab: "ncabort cg s1 cdfid = (Inr 0, ?s2)"
    using chk1 fl s1 one sa ft
    by (simp add: ncabort_def Let_def NC_free_cdf_def put_h_def abort_tail_def abort_removes_def
                  release_def)
  have fin: "finite (dom (heap s))" by (rule sess_inv_finite [OF inv])
  have pin: "p \<in> dom (heap s)" using C by auto
  have "card (dom ((heap s)(p := None))) = card (dom (heap s)) - 1"
    using fin pin by (simp add: card_Diff_singleton)
  moreover have "0 < card (dom (heap s))" using fin pin card_gt_0_iff by blast
  ultimately show ?thesis using s1(1) ab curr_opened_heap [OF inv] by auto
qed

text \<open>
  C18. Ending a definition whose schema has no variables jumps past the commit: a
  successful \<open>ncendef\<close> then changes no slot of the table (after a redefinition
  the stash stays live and counted), no other handle and no directory entry (the
  shadow is neither renamed nor removed), and the handle keeps its path, the
  shadow's, in data mode.
\<close>

theorem endef_empty_schema_keeps_shadow:
  assumes chk: "nc_check s cdfid = Inr (p, h)" and v: "vars h = None"
    and r: "ncendef cg s cdfid = (Inr v', s')"
  shows "tbl s' = tbl s \<and> (\<forall>q. q \<noteq> p \<longrightarrow> heap s' q = heap s q) \<and> dir (sys s') = dir (sys s) \<and>
         (\<exists>h'. heap s' p = Some h' \<and> path h' = path h \<and> \<not> flag_set (flags h') NC_INDEF)"
proof -
  have e: "NC_endef cg s cdfid p h = (Inr v', s')" by (rule ncendef_Inr [OF chk r])
  let ?h1 = "set_xop XDR_ENCODE h"
  have h1: "set_xop XDR_ENCODE (if file_type h \<noteq> HDF_FILE then NC_begins (c_xlen cg h) h else h) = ?h1"
    using v by (simp add: NC_begins_None)
  obtain os1 h2 where enc: "xdr_cdf_encode cg (sys s) ?h1 = Some (os1, h2)"
    using e h1 by (cases "xdr_cdf_encode cg (sys s) ?h1") (auto simp add: NC_endef_def Let_def)
  obtain x' where w: "writes_only (sys s) os1" "h2 = ?h1\<lparr>xdrs := x'\<rparr>"
    using xdr_cdf_encode_writes [OF enc] by blast
  have "vars h2 = None" using w(2) v by (simp add: set_xop_def)
  then have s': "s' = (put_h s p (clear_modes h2))\<lparr>sys := os1\<rparr>"
    using e h1 enc by (auto simp add: NC_endef_def Let_def split: if_splits)
  have "path (clear_modes h2) = path h" using w(2) by (simp add: clear_modes_def set_xop_def)
  then show ?thesis using s' writes_only_fields [OF w(1)] clear_modes_data_mode [of h2]
    by (simp add: put_h_def)
qed

text \<open>
  C19. When \<open>rename(2)\<close> fails at the end of a redefinition, the commit puts the
  stash back at \<open>cdfid\<close> exactly as it was (so with the \<open>NC_INDEF\<close>
  \<open>ncredef\<close> set on it: still in define mode), retires the stash's slot, frees the
  new handle and leaves every directory entry, the shadow's included, in place; it
  reports \<open>NC_SYSERR\<close>.
\<close>

theorem rename_failure_restores_stash:
  assumes inv: "sess_inv s" and live: "HNDLE (tbl s) cdfid = Some p"
    and st: "HNDLE (tbl s) (redefid h) = Some q" "heap s q = Some old" and ne: "redefid h \<noteq> cdfid"
    and ren: "posix_rename (sys s) (path h) (path old) = Inl e"
    and r: "endef_commit s cdfid p (Some q) h old = (r, s')"
  shows "r = Inl NC_SYSERR \<and> HNDLE (tbl s') = (HNDLE (tbl s))(cdfid \<mapsto> q, redefid h := None) \<and>
         heap s' = (heap s)(p := None) \<and> heap s' q = Some old \<and> dir (sys s') = dir (sys s) \<and>
         curr_opened (tbl s') = curr_opened (tbl s) - 1"
proof -
  note I = sess_invD(1) [OF inv]
  have pq: "p \<noteq> q" using sess_invD(3) [OF inv, of cdfid p "redefid h"] live st(1) ne by auto
  have hp: "heap s p \<noteq> None" by (rule sess_invD(2) [OF inv live])
  have sa: "slot_in_array (tbl s) cdfid" "slot_in_array (tbl s) (redefid h)"
    using slot_in_array_live [OF I] live st(1) by auto
  note S = set_slot_live [OF I, of cdfid q]
  have l2: "HNDLE (set_slot cdfid (Some q) (tbl s)) (redefid h) \<noteq> None" using S live st(1) ne by simp
  have H: "HNDLE (retire_slot (redefid h) (set_slot cdfid (Some q) (tbl s))) =
           (HNDLE (tbl s))(cdfid \<mapsto> q, redefid h := None)"
    using HNDLE_retire [OF conjunct1 [OF S] l2] S live by simp
  have s': "r = Inl NC_SYSERR \<and>
            s' = s\<lparr>tbl := retire_slot (redefid h) (set_slot cdfid (Some q) (tbl s)),
                   heap := (heap s)(p := None), sys := posix_close (sys s)\<rparr>"
    using r ren sa hp by (auto simp add: endef_commit_def NC_free_cdf_def)
  then show ?thesis using H pq st(2) by (simp add: posix_close_def set_slot_def)
qed

section \<open>Witnesses\<close>

theorem NC_open_refines_witness:
  "HNDLE (tbl sample_opened) 0 = Some 0 \<and> curr_opened (tbl sample_opened) = 1"
  using NC_open_refines [OF sample_inv _ sample_open_eq] by (simp add: api_eval)

theorem NC_open_inv_witness: "sess_inv sample_opened"
  using NC_open_inv [OF sample_inv _ sample_open_eq] by (simp add: api_eval)

theorem NC_open_error_keeps_handles_witness:
  "fst (NC_open (sample_codec netCDF_FILE) (sample_state False) ''d/x.nc'' NC_WRITE) = Inl NC_SYSERR \<and>
   heap (snd (NC_open (sample_codec netCDF_FILE) (sample_state False) ''d/x.nc'' NC_WRITE)) = Map.empty"
proof -
  have e: "NC_open (sample_codec netCDF_FILE) (sample_state False) ''d/x.nc'' NC_WRITE =
           (Inl NC_SYSERR, snd (NC_open (sample_codec netCDF_FILE) (sample_state False) ''d/x.nc'' NC_WRITE))"
    by (simp add: api_eval)
  show ?thesis using NC_open_error_keeps_handles [OF sample_inv _ e] e by (simp add: api_eval)
qed

theorem ncclose_data_refines_witness:
  "HNDLE (tbl (snd (ncclose (sample_codec netCDF_FILE) sample_opened 0))) 0 = None \<and>
   open_fds (sys (snd (ncclose (sample_codec netCDF_FILE) sample_opened 0))) = 0"
proof -
  have c: "ncclose (sample_codec netCDF_FILE) sample_opened 0 = (Inr 0, snd (ncclose (sample_codec netCDF_FILE) sample_opened 0))"
    by (simp add: sample_opened_def api_eval)
  show ?thesis using ncclose_data_refines [OF sample_opened_inv sample_opened_check _ c]
    by (simp add: sample_opened_def api_eval)
qed

theorem ncredef_refines_witness:
  "HNDLE (tbl sample_redef) 0 = Some 1 \<and> HNDLE (tbl sample_redef) 1 = Some 0"
  using ncredef_refines [OF sample_opened_inv sample_opened_check _ sample_redef_eq]
  by (simp add: sample_opened_def api_eval)

theorem NC_endef_writes_own_file_witness:
  "files (sys (snd (NC_endef (sample_codec netCDF_FILE) sample_redef 0 1 (the (heap sample_redef 1))))) 0 =
   files (sys sample_redef) 0"
  using NC_endef_writes_own_file [OF prod.collapse [symmetric], of _ _ _ _ _ 0]
  by (simp add: sample_redef_def sample_opened_def api_eval)

theorem redef_abort_restores_witness:
  "dir (sys (snd (ncabort (sample_codec netCDF_FILE) sample_redef 0))) = dir (sys sample_opened)"
  using redef_abort_restores [OF sample_opened_inv sample_opened_check _ _ _ _ sample_redef_eq]
  by (simp add: sample_redef_def sample_opened_def api_eval)

theorem reach_accounting_witness:
  "curr_opened (tbl sample_opened) = int (card (dom (HNDLE (tbl sample_opened))))"
  using reach_accounting [OF sample_opened_reach] by blast

theorem NC_open_exhausted_witness:
  "NC_open (sample_codec netCDF_FILE) sample_full ''d/a.nc'' NC_WRITE = (Inl NC_ENFILE, sample_full)"
  by (rule NC_open_exhausted) (simp_all add: sample_full_def api_eval)

theorem NC_open_grow_overflow_witness:
  "fst (NC_open (sample_codec netCDF_FILE) sample_tight ''d/a.nc'' NC_NOWRITE) = Inl NC_UB"
proof -
  obtain os' h where n: "NC_new_cdf (sample_codec netCDF_FILE) (sys sample_tight) ''d/a.nc'' NC_NOWRITE = Inr (os', h)"
    by (simp add: sample_tight_def api_eval)
  have "NC_open (sample_codec netCDF_FILE) sample_tight ''d/a.nc'' NC_NOWRITE = (Inl NC_UB, sample_tight\<lparr>sys := os'\<rparr>)"
    by (rule NC_open_grow_overflow [OF _ _ _ _ _ n])
       (simp_all add: sample_tight_def tbl_inv_def live_count_def api_eval)
  then show ?thesis by simp
qed

theorem ncsetfill_mode_witness:
  "flag_set (flags (the (heap (snd (ncsetfill (sample_codec netCDF_FILE) sample_opened 0 NC_NOFILL)) 0))) NC_NOFILL"
  using ncsetfill_mode [OF sample_opened_check, of "sample_codec netCDF_FILE" NC_NOFILL 0
                        "snd (ncsetfill (sample_codec netCDF_FILE) sample_opened 0 NC_NOFILL)"]
  by (auto simp add: sample_opened_def api_eval ncsetfill_def)

theorem ncsetfill_error_witness:
  "snd (ncsetfill (sample_codec netCDF_FILE) sample_opened 0 7) = sample_opened"
  using ncsetfill_error [of "sample_codec netCDF_FILE" sample_opened 0 7 NC_EINVAL
                         "snd (ncsetfill (sample_codec netCDF_FILE) sample_opened 0 7)"]
  by (simp add: sample_opened_def api_eval ncsetfill_def)

theorem ncsync_failure_dangles_witness:
  "\<not> sess_inv (snd (ncsync (sample_codec netCDF_FILE) sample_clobbered 0))"
  using ncsync_failure_dangles [OF sample_clobbered_inv, of 0 0 "the (heap sample_clobbered 0)"
                                "sample_codec netCDF_FILE"]
  by (simp add: sample_clobbered_def sample_ro_def api_eval)

theorem open_close_roundtrip_witness:
  "fst (ncclose (sample_codec netCDF_FILE) sample_ro 0) = Inr 0 \<and>
   heap (snd (ncclose (sample_codec netCDF_FILE) sample_ro 0)) = heap (sample_state False)"
  using open_close_roundtrip [OF sample_inv _ _ _ sample_ro_eq] by (auto simp add: sample_ro_def api_eval)


theorem reach_seed_ok_witness: "tn_seed_ok (tn_seed sample_opened)"
  using reach_seed_ok [OF sample_opened_reach] .


theorem NC_endef_commit_refines_witness:
  "HNDLE (tbl (snd (NC_endef (sample_codec netCDF_FILE) sample_redef 0 1 (the (heap sample_redef 1))))) 1 = None \<and>
   heap (snd (NC_endef (sample_codec netCDF_FILE) sample_redef 0 1 (the (heap sample_redef 1)))) 0 = None"
proof -
  have i: "sess_inv sample_redef"
    using ncredef_step [OF sample_opened_inv sample_opened_check _ sample_redef_eq]
    by (simp add: sample_opened_def api_eval)
  have c: "nc_check sample_redef 0 = Inr (1, the (heap sample_redef 1))"
    by (simp add: sample_redef_def sample_opened_def api_eval)
  have e: "NC_endef (sample_codec netCDF_FILE) sample_redef 0 1 (the (heap sample_redef 1)) =
           (Inr 0, snd (NC_endef (sample_codec netCDF_FILE) sample_redef 0 1 (the (heap sample_redef 1))))"
    by (simp add: sample_redef_def sample_opened_def api_eval)
  show ?thesis
    using NC_endef_commit_refines [OF i c _ _ _ _ e]
    by (auto simp add: sample_redef_def sample_opened_def api_eval)
qed


theorem ncredef_state_errors_witness:
  "snd (ncredef (sample_codec netCDF_FILE) sample_redef 0) = sample_redef"
  using ncredef_state_errors [of "sample_codec netCDF_FILE" sample_redef 0 NC_EINDEFINE
                              "snd (ncredef (sample_codec netCDF_FILE) sample_redef 0)"]
  by (simp add: sample_redef_def sample_opened_def api_eval)

theorem close_all_releases_witness:
  "\<exists>s'. api_run (sample_codec netCDF_FILE) sample_opened (map Close [0]) = (replicate 1 (Inr 0), s') \<and>
        sess_inv s' \<and> HNDLE (tbl s') = Map.empty \<and> heap s' = Map.empty \<and>
        curr_opened (tbl s') = 0 \<and> open_fds (sys s') = 0"
proof -
  have d: "set [0] = dom (HNDLE (tbl sample_opened))"
    by (auto simp add: sample_opened_def api_eval split: if_splits)
  have k: "closable sample_opened" by (simp add: closable_def sample_opened_def api_eval)
  show ?thesis using close_all_releases [OF sample_opened_inv _ d k] by simp
qed

theorem ncclose_mark_witness:
  "ncdf (tbl (snd (ncclose (sample_codec netCDF_FILE) sample_opened 0))) =
     (if (0::int) = ncdf (tbl sample_opened) - 1 then ncdf (tbl sample_opened) - 1 else ncdf (tbl sample_opened)) \<and>
   (cdfs (tbl (snd (ncclose (sample_codec netCDF_FILE) sample_opened 0))) = None \<longleftrightarrow>
    ncdf (tbl (snd (ncclose (sample_codec netCDF_FILE) sample_opened 0))) = 0)"
proof -
  have dm: "\<not> flag_set (flags (the (heap sample_opened 0))) NC_INDEF"
    by (simp add: sample_opened_def api_eval)
  have r: "ncclose (sample_codec netCDF_FILE) sample_opened 0 =
           (Inr 0, snd (ncclose (sample_codec netCDF_FILE) sample_opened 0))"
    by (simp add: sample_opened_def api_eval)
  show ?thesis using ncclose_mark [OF sample_opened_inv sample_opened_check dm r] by simp
qed

theorem hdf_abort_double_release_witness:
  "fst (ncredef (sample_codec HDF_FILE) sample_hdf 0) = Inr 0 \<and>
   (\<exists>s2. ncabort (sample_codec HDF_FILE) (snd (ncredef (sample_codec HDF_FILE) sample_hdf 0)) 0 = (Inr 0, s2) \<and>
         heap s2 = (heap sample_hdf)(0 := None) \<and>
         curr_opened (tbl s2) = curr_opened (tbl sample_hdf) - 2 \<and>
         curr_opened (tbl s2) = int (card (dom (heap s2))) - 1)"
proof -
  have chk: "nc_check sample_hdf 0 = Inr (0, the (heap sample_hdf 0))" by (simp add: sample_hdf_def api_eval)
  have h: "file_type (the (heap sample_hdf 0)) = HDF_FILE"
    "\<not> flag_set (flags (the (heap sample_hdf 0))) NC_INDEF"
    "flag_set (flags (the (heap sample_hdf 0))) NC_RDWR"
    "\<not> flag_set (flags (the (heap sample_hdf 0))) NC_CREAT"
    by (simp_all add: sample_hdf_def api_eval)
  have one: "HNDLE (tbl sample_hdf) 1 = None" "slot_in_array (tbl sample_hdf) 1"
    by (simp_all add: sample_hdf_def api_eval)
  show ?thesis
    using hdf_abort_double_release [OF sample_hdf_inv chk h one, of "sample_codec HDF_FILE"
            "fst (ncredef (sample_codec HDF_FILE) sample_hdf 0)" "snd (ncredef (sample_codec HDF_FILE) sample_hdf 0)"]
    by simp
qed

theorem endef_empty_schema_keeps_shadow_witness:
  "let s' = snd (ncendef (sample_codec netCDF_FILE) sample_empty_redef 0) in
   tbl s' = tbl sample_empty_redef \<and> (\<forall>q. q \<noteq> 1 \<longrightarrow> heap s' q = heap sample_empty_redef q) \<and>
   dir (sys s') = dir (sys sample_empty_redef) \<and>
   (\<exists>h'. heap s' 1 = Some h' \<and> path h' = path (the (heap sample_empty_redef 1)) \<and>
         \<not> flag_set (flags h') NC_INDEF)"
proof -
  have chk: "nc_check sample_empty_redef 0 = Inr (1, the (heap sample_empty_redef 1))"
    by (simp add: sample_empty_redef_def api_eval)
  have v: "vars (the (heap sample_empty_redef 1)) = None" by (simp add: sample_empty_redef_def api_eval)
  have r: "ncendef (sample_codec netCDF_FILE) sample_empty_redef 0 =
           (Inr 0, snd (ncendef (sample_codec netCDF_FILE) sample_empty_redef 0))"
    by (simp add: sample_empty_redef_def api_eval)
  show ?thesis using endef_empty_schema_keeps_shadow [OF chk v r] by (simp add: Let_def)
qed

theorem rename_failure_restores_stash_witness:
  "let s = sample_redef_fault; h = the (heap s 1); old = the (heap s 0);
       (r, s') = endef_commit s 0 1 (Some 0) h old
   in r = Inl NC_SYSERR \<and> HNDLE (tbl s') = (HNDLE (tbl s))(0 \<mapsto> 0, redefid h := None) \<and>
      heap s' = (heap s)(1 := None) \<and> heap s' 0 = Some old \<and> dir (sys s') = dir (sys s) \<and>
      curr_opened (tbl s') = curr_opened (tbl s) - 1"
proof -
  let ?s = sample_redef_fault
  have live: "HNDLE (tbl ?s) 0 = Some 1" by (simp add: sample_redef_fault_def api_eval)
  have st: "HNDLE (tbl ?s) (redefid (the (heap ?s 1))) = Some 0" "heap ?s 0 = Some (the (heap ?s 0))"
    "redefid (the (heap ?s 1)) \<noteq> 0"
    by (simp_all add: sample_redef_fault_def api_eval)
  obtain e where ren: "posix_rename (sys ?s) (path (the (heap ?s 1))) (path (the (heap ?s 0))) = Inl e"
    by (simp add: sample_redef_fault_def api_eval)
  obtain r s' where r: "endef_commit ?s 0 1 (Some 0) (the (heap ?s 1)) (the (heap ?s 0)) = (r, s')"
    by (cases "endef_commit ?s 0 1 (Some 0) (the (heap ?s 1)) (the (heap ?s 0))")
  show ?thesis using rename_failure_restores_stash [OF sample_redef_fault_inv live st ren r] r st(2) by simp
qed

end
