(* ===== verification/Spec2Isabelle.thy ===== *)
theory Spec2Isabelle
  imports Api
begin

text \<open>
  \<^bold>\<open>A verification model of the netCDF session and layout manager of HDF4
  (\<^verbatim>\<open>mfhdf/src/file.c\<close>).\<close>

  \<^bold>\<open>The program.\<close> \<^verbatim>\<open>file.c\<close> keeps a process-wide table \<^verbatim>\<open>_cdfs\<close> of open
  netCDF handles (\<^verbatim>\<open>NC\<close>), grows it on demand up to a limit derived from the
  descriptor limit, opens and creates files into it (\<^verbatim>\<open>NC_open\<close>, \<^verbatim>\<open>nccreate\<close>,
  \<^verbatim>\<open>ncopen\<close>), closes, syncs and aborts them (\<^verbatim>\<open>ncclose\<close>, \<^verbatim>\<open>ncsync\<close>,
  \<^verbatim>\<open>ncabort\<close>), and implements the redefinition protocol: \<^verbatim>\<open>ncredef\<close> makes a
  shadow copy of a handle on a temporary file (\<^verbatim>\<open>NCtempname\<close>), \<^verbatim>\<open>NC_endef\<close>
  lays the new schema out (\<^verbatim>\<open>NC_begins\<close>), copies the old data into it
  (\<^verbatim>\<open>NC_vcpy\<close>, \<^verbatim>\<open>NC_reccpy\<close>, \<^verbatim>\<open>NC_dcpy\<close>) and renames the shadow over
  the original. The codec (\<^verbatim>\<open>xdr_cdf\<close>, \<^verbatim>\<open>xdr_numrecs\<close>, \<^verbatim>\<open>xdr_NC_fill\<close>,
  \<^verbatim>\<open>NC_xlen_cdf\<close>) and the handle constructors (\<^verbatim>\<open>NC_new_cdf\<close>,
  \<^verbatim>\<open>NC_dup_cdf\<close>, \<^verbatim>\<open>NC_free_cdf\<close>) live in other files of the library.

  \<^bold>\<open>The theories.\<close>
  \<^item> \<open>Prelude\<close>: machine types (\<open>u32\<close> flags, \<open>u64\<close> offsets, \<open>byte\<close>), the
    collections \<open>table_simps\<close>, \<open>flag_simps\<close>, \<open>stream_simps\<close>, positional writes
    \<open>put_at\<close> and generic list and word lemmas.
  \<^item> \<open>Xdr_Os\<close> (modelled from the specification's gateway interface and POSIX, since
    that code is not in the repository): an inode file system with a directory,
    descriptor accounting against \<open>rlim_cur\<close>, \<open>open\<close>, \<open>close\<close>, \<open>rename\<close>,
    \<open>remove\<close>, \<open>access\<close>, and XDR streams with \<open>h4_xdr_setpos\<close>,
    \<open>h4_xdr_getbytes\<close>, \<open>h4_xdr_putbytes\<close>. A stream names an inode, so it follows
    its file across a rename as a descriptor does. \<open>os_ok\<close> is its well-formedness,
    \<open>writes_only\<close> and \<open>frame_at\<close> say that a step only wrote file contents, and
    only those of one inode.
  \<^item> \<open>NC_Types\<close>: the \<^verbatim>\<open>NC\<close> and \<^verbatim>\<open>NC_var\<close> records, the flag bits as
    \<open>32 word\<close> values tested by \<open>flag_set\<close>, \<open>IS_RECVAR\<close>, the error codes (with
    \<open>NC_UB\<close> for undefined behaviour of the C code and \<open>NC_NOREPORT\<close> for a
    \<open>-1\<close> return that reports nothing), and \<open>NCxdrfile_create\<close>.
  \<^item> \<open>Open_Table\<close>: the table \<open>'h cdf_table\<close> (\<^verbatim>\<open>_cdfs\<close>, \<^verbatim>\<open>_ncdf\<close>,
    \<^verbatim>\<open>_curr_opened\<close>, \<^verbatim>\<open>max_NC_open\<close>), polymorphic in what a slot holds:
    \<open>MAX_AVAIL_OPENFILES\<close>, \<open>NC_reset_maxopenfiles\<close>, the getters, \<open>HNDLE\<close>,
    \<open>NC_check_id\<close>, the free-slot scan \<open>first_free_id\<close>, the allocation and growth
    steps of \<^verbatim>\<open>NC_open\<close> (\<open>nc_alloc_table\<close>, \<open>nc_grow_table\<close>),
    \<open>install_slot\<close> and \<open>retire_slot\<close>, and \<open>slot_in_array\<close>, the guard of every
    store into \<^verbatim>\<open>_cdfs\<close> whose index the code does not check. Its invariant
    \<open>tbl_inv\<close>: the mark is within the capacity, the array has the capacity's length
    when allocated and is \<open>NULL\<close> only when the mark is 0, \<^verbatim>\<open>_curr_opened\<close>
    counts the live slots below the mark. Install and retire keep it and refine a
    finite map; the scan returns the least free identifier; a successful resize up to
    the system limit never returns less than the number of files open.
  \<^item> \<open>Layout\<close>: \<open>NC_begins\<close> as its two passes over \<open>64 word\<close> offsets,
    compared with the prefix offsets \<open>offsets\<close>; \<^verbatim>\<open>recsize\<close> in closed form;
    no overlap without wrap-around, and a variable placed inside the header whenever
    the header and the first fixed variable wrap past \<open>2^64\<close>; the plan depends on
    the schema alone, so planning twice changes nothing.
  \<^item> \<open>Data_Copy\<close>: \<open>NC_dcpy\<close> as a \<^theory_text>\<open>function\<close> over a \<open>64 word\<close> count,
    terminating by the measure \<open>unat\<close>, \<open>NC_vcpy\<close> and \<open>NC_reccpy\<close>; the chunked
    loop is proved equal to the one-shot copy \<open>copy_spec\<close>. \<open>NC_dcpy_while\<close>
    runs the source's \<^verbatim>\<open>while\<close> loop (\<open>NC_dcpy_cond\<close>, \<open>NC_dcpy_body\<close>, then
    \<open>NC_dcpy_tail\<close>) through \<open>while_option\<close>; it always returns, and returns what
    \<open>NC_dcpy\<close> returns: the termination of the loop.
  \<^item> \<open>Codec\<close> (from the specification): the header codec as a record of functions
    \<open>codec\<close> passed to every operation, and the wrappers \<open>xdr_cdf_encode\<close>,
    \<open>xdr_cdf_decode\<close>, \<open>xdr_numrecs\<close>, \<open>xdr_NC_fill\<close> with their frame lemmas: each
    writes only the file of the handle's stream.
  \<^item> \<open>Tempname\<close>: \<^verbatim>\<open>NCtempname\<close> with its static seed in the process state;
    a non-empty result lies in the prototype's directory, is eight characters longer
    than the directory part, names no existing file, and the seed stays three letters.
  \<^item> \<open>Session\<close>: the process state \<open>nc_state\<close> (the table of pointers, the heap
    of handles, the file system, \<^verbatim>\<open>ncopts\<close>, the seed); the constructors of
    \<^verbatim>\<open>cdf.c\<close> from the specification; \<^verbatim>\<open>NC_open\<close>, \<^verbatim>\<open>nccreate\<close>,
    \<^verbatim>\<open>ncopen\<close>, \<^verbatim>\<open>ncsync\<close>, \<^verbatim>\<open>ncsetfill\<close>, \<^verbatim>\<open>ncnobuf\<close>,
    \<^verbatim>\<open>NC_indefine\<close>; the invariant \<open>sess_inv\<close> (table invariant, live slots point
    injectively at allocated handles and every handle is in a slot, one descriptor per
    handle, streams name existing inodes). Lemmas: \<^verbatim>\<open>NC_open\<close> keeps it on every
    path, refines insertion at the least free key, fails with \<open>NC_ENFILE\<close> when the
    table is full at the system limit, and stores past the array when the limit has
    dropped below the capacity; \<^verbatim>\<open>ncsetfill\<close> returns the previous mode, sets
    the new one, restores the stream direction and fails without effect on a bad mode;
    \<^verbatim>\<open>ncsync\<close> keeps the invariant except when rereading a read-only header
    fails, where it frees the handle and leaves its identifier dangling.
  \<^item> \<open>Redef\<close>: \<^verbatim>\<open>ncredef\<close>, \<^verbatim>\<open>NC_endef\<close> (both copy passes
    \<open>endef_vars\<close>, \<open>endef_recs\<close>, the rename commit and its restore
    \<open>endef_commit\<close>), \<^verbatim>\<open>ncendef\<close>, \<^verbatim>\<open>ncabort\<close>, \<^verbatim>\<open>ncclose\<close>.
    \<^verbatim>\<open>ncredef\<close> reports \<open>NC_EINDEFINE\<close> only when \<^verbatim>\<open>STASH(cdfid)\<close>
    holds a handle, as the code does, and its state-machine errors change nothing.
    Lemmas: \<^verbatim>\<open>ncredef\<close> and a data-mode \<^verbatim>\<open>ncclose\<close> keep the invariant
    and refine map updates; \<^verbatim>\<open>NC_endef\<close> writes only its own file and
    leaves the stash's file and path alone; a successful end of definition keeps the
    invariant, and for a netCDF redefinition it commits: the stash is retired, the
    handle takes the original path and the shadow's inode the original directory
    entry; redefining a clean netCDF file and aborting restores the file system.
  \<^item> \<open>Api\<close>: the start state, the calls as a datatype \<open>api_op\<close> run in sequence by
    \<open>api_run\<close>, the reachable states \<open>reach\<close> (opening within the system limit,
    data-mode close, netCDF redefinition, abort of a redefinition, a sync whose reread
    does not fail, a change of fill mode, a successful end of definition) with the
    accounting theorem and the well-formedness of the \<^verbatim>\<open>NCtempname\<close> seed
    proved by rule induction, the read-only open/close round trip, the liveness of
    closing: from a consistent state whose handles are all in data mode and clean
    (\<open>closable\<close>), closing every live identifier once, in any order, always
    succeeds and releases the table, the heap and the descriptors; the water mark of a
    data-mode close, lowered by one only when the top identifier is closed and never
    past the tombstones below it; and general theorems for three defects: the double
    release of an aborted HDF redefinition (\<open>redefid = TRUE\<close>), the commit skipped
    by an empty schema, and the stash a failed rename restores still in define mode,
    with the shadow file left on disk. A sample environment gives each theorem with
    hypotheses a witness: a concrete run of the calls in which the hypotheses hold.

  \<^bold>\<open>Modelling choices.\<close> Integers keep their C width where it matters: flags
  are \<open>32 word\<close>, offsets, lengths and record sizes \<open>64 word\<close> (\<^verbatim>\<open>unsigned long\<close>
  on LP64), the descriptor limit a \<open>64 word\<close> so that \<^verbatim>\<open>MAX_AVAIL_OPENFILES\<close>
  wraps as the macro does; identifiers and counters are \<open>int\<close>. Every C error
  return is a value; every operation returns its result and the state it leaves, also
  on failure. Handles are pointers into a heap, so a slot that still points at a freed
  handle is expressible, and dereferencing it is \<open>NC_UB\<close>. \<^verbatim>\<open>malloc\<close> and
  \<^verbatim>\<open>rename\<close> failures are chosen by the environment (\<open>oom\<close>,
  \<open>rename_fault\<close>). Slots at or above the mark are uninitialised in C and \<open>None\<close>
  here; reading \<^verbatim>\<open>_cdfs[-1]\<close> gives no handle. No loop needs fuel:
  \<open>NC_dcpy\<close> decreases its unsigned count by the buffer size each round, and its
  \<open>while_option\<close> form is proved to return for every input, the variable passes recurse on the list of
  variables, the record loop on the number of records, the letter loop of
  \<^verbatim>\<open>NCtempname\<close> is a \<open>find\<close> over the 26 letters.

  \<^bold>\<open>Not modelled.\<close> The test programs under \<^verbatim>\<open>hdf/test\<close> (they drive the
  DFSD interface with fixed arrays, not this engine); \<^verbatim>\<open>hdf_close\<close>, the HDF
  layer's close that \<^verbatim>\<open>ncclose\<close> calls for HDF files; the Windows branches
  (\<^verbatim>\<open>_getmaxstdio\<close>, the remove-before-rename of \<^verbatim>\<open>NC_endef\<close>); the
  \<^verbatim>\<open>XDR_FREE\<close> pass of \<^verbatim>\<open>ncsync\<close>, which only frees memory;
  \<^verbatim>\<open>SDPfreebuf\<close>; error reporting (\<^verbatim>\<open>NCadvise\<close>, \<^verbatim>\<open>nc_serror\<close>,
  \<^verbatim>\<open>cdf_routine_name\<close>); and the byte encoding of the header, which the codec
  record abstracts.
\<close>

end
